theory Spec2Isabelle
  imports Complex_Main "HOL-Library.Sublist" "HOL-Library.Word"
begin

section \<open>The store\<close>

text \<open>
  The schema of \<^verbatim>\<open>SCHEMA_SQL\<close> (db layer): the tables \<^verbatim>\<open>memories\<close> and
  \<^verbatim>\<open>co_occurrences\<close>. A \<^verbatim>\<open>NULL\<close> column value is \<open>None\<close>. Numbers are
  JavaScript doubles and SQLite \<^verbatim>\<open>REAL\<close>s in the source and real numbers here (rounding,
  infinities and NaN are outside the model). The ISO-8601 texts of \<^verbatim>\<open>created\<close> and
  \<^verbatim>\<open>last_retrieved\<close> are kept as the milliseconds \<^verbatim>\<open>new Date(text).getTime()\<close> reads
  from them. Every \<^verbatim>\<open>INSERT\<close> of the repository binds \<^verbatim>\<open>activation\<close> and
  \<^verbatim>\<open>retrieval_count\<close> (\<^verbatim>\<open>entry.activation || 0\<close> in \<^verbatim>\<open>upsertMemory\<close>), so these two
  columns are never \<^verbatim>\<open>NULL\<close>.

  The column \<^verbatim>\<open>id\<close> is the field \<open>mem_id\<close> (\<open>id\<close> is the identity function of HOL).

  A BLOB comes back from the driver as a Node \<^verbatim>\<open>Buffer\<close>: a view of \<^verbatim>\<open>byteLength\<close> bytes
  that starts \<^verbatim>\<open>byteOffset\<close> bytes into its \<^verbatim>\<open>ArrayBuffer\<close>.
\<close>

type_synonym byte = "8 word"

record buffer =
  byteOffset :: nat
  bytes :: "byte list"

definition byteLength :: "buffer \<Rightarrow> nat" where
  "byteLength buf = length (bytes buf)"

record memory =
  mem_id :: string
  title :: "string option"
  source :: "string option"
  source_section :: "string option"
  created :: int
  last_retrieved :: "int option"
  retrieval_count :: int
  content_hash :: "string option"
  activation :: real
  detail :: "string option"
  domain :: "string option"
  pattern_type :: "string option"
  embedding :: "buffer option"
  status :: "string option"
  superseded_by :: "string option"
  corrects :: "string option"

text \<open>A row of \<^verbatim>\<open>co_occurrences\<close>: \<^verbatim>\<open>(memory_a, memory_b, weight)\<close>, with
  \<^verbatim>\<open>PRIMARY KEY (memory_a, memory_b)\<close>.\<close>

type_synonym co_row = "string \<times> string \<times> real"

record store =
  memories :: "memory list"
  co_occurrences :: "co_row list"

subsection \<open>Prepared statements\<close>

text \<open>\<^verbatim>\<open>stmts.getMemory\<close>: \<^verbatim>\<open>SELECT * FROM memories WHERE id = ?\<close>, first row or undefined.\<close>

definition getMemory :: "store \<Rightarrow> string \<Rightarrow> memory option" where
  "getMemory db i = find (\<lambda>m. mem_id m = i) (memories db)"

text \<open>\<^verbatim>\<open>stmts.bumpActivation.run(amount, now, id)\<close>: the \<^verbatim>\<open>UPDATE\<close> and its
  \<^verbatim>\<open>info.changes\<close>, the number of rows the \<^verbatim>\<open>WHERE\<close> clause matched.\<close>

definition bumpActivation_row :: "real \<Rightarrow> int \<Rightarrow> memory \<Rightarrow> memory" where
  "bumpActivation_row amount now m =
     m\<lparr>activation := activation m + amount,
       retrieval_count := retrieval_count m + 1,
       last_retrieved := Some now\<rparr>"

definition bumpActivation :: "store \<Rightarrow> real \<Rightarrow> int \<Rightarrow> string \<Rightarrow> store \<times> nat" where
  "bumpActivation db amount now i =
     (db\<lparr>memories := map (\<lambda>m. if mem_id m = i then bumpActivation_row amount now m else m)
                          (memories db)\<rparr>,
      length (filter (\<lambda>m. mem_id m = i) (memories db)))"

text \<open>\<^verbatim>\<open>stmts.insertCoOcc.run(a, b, w)\<close>: insert the row, or on a conflict of the primary
  key add \<open>w\<close> to the weight of the row that is there.\<close>

fun insertCoOcc :: "co_row list \<Rightarrow> string \<Rightarrow> string \<Rightarrow> real \<Rightarrow> co_row list" where
  "insertCoOcc [] a b w = [(a, b, w)]"
| "insertCoOcc ((a', b', w') # rows) a b w =
     (if a' = a \<and> b' = b then (a', b', w' + w) # rows
      else (a', b', w') # insertCoOcc rows a b w)"

text \<open>\<^verbatim>\<open>stmts.getCoOccurrences.all(id, k)\<close>: the neighbours of \<open>id\<close> by descending
  weight, at most \<open>k\<close> of them. SQLite leaves the order of equal weights open; the model keeps
  the table's order among them (\<open>sort_key\<close> is stable).\<close>

definition getCoOccurrences :: "store \<Rightarrow> string \<Rightarrow> nat \<Rightarrow> (string \<times> real) list" where
  "getCoOccurrences db i k =
     take k (sort_key (\<lambda>(b, w). - w)
       (map (\<lambda>(a, b, w). (b, w)) (filter (\<lambda>(a, b, w). a = i) (co_occurrences db))))"

section \<open>Activation engine\<close>

text \<open>
  \<^verbatim>\<open>bumpActivations(db, ids, amount)\<close>: one transaction that runs the \<^verbatim>\<open>UPDATE\<close> once for
  each element of \<^verbatim>\<open>ids\<close>, in order, and counts the runs that changed a row. \<open>now\<close> is the
  \<^verbatim>\<open>new Date()\<close> read once before the loop. No statement of the loop can fail, so the
  transaction always commits.
\<close>

fun bumpTx :: "real \<Rightarrow> int \<Rightarrow> string list \<Rightarrow> store \<times> nat \<Rightarrow> store \<times> nat" where
  "bumpTx amount now [] (db, bumped) = (db, bumped)"
| "bumpTx amount now (i # idList) (db, bumped) =
     (let (db', changes) = bumpActivation db amount now i
      in bumpTx amount now idList (db', if changes > 0 then bumped + 1 else bumped))"

definition bumpActivations :: "store \<Rightarrow> string list \<Rightarrow> real \<Rightarrow> int \<Rightarrow> store \<times> nat" where
  "bumpActivations db ids amount now = bumpTx amount now ids (db, 0)"


section \<open>Vector math\<close>

datatype error = RangeError | TypeError


definition float32_le :: "byte list \<Rightarrow> real" where
  "float32_le bs =
     (let w = foldr (\<lambda>b acc. unat b + 256 * acc) bs 0;
          e = (w div 2 ^ 23) mod 256;
          m = w mod 2 ^ 23;
          sign = (if w div 2 ^ 31 = 1 then - 1 else 1 :: real);
          frac = (if e = 0 then 2 * real m else real (2 ^ 23 + m))
      in if 150 \<le> e then sign * frac * 2 ^ (e - 150) else sign * frac / 2 ^ (150 - e))"

text \<open>The elements of a \<^verbatim>\<open>Float32Array\<close> of length \<open>n\<close> over the bytes \<open>bs\<close>: element
  \<open>i\<close> is read from the bytes \<open>4 i, \<dots>, 4 i + 3\<close>.\<close>

definition float32_elements :: "byte list \<Rightarrow> nat \<Rightarrow> real list" where
  "float32_elements bs n = map (\<lambda>i. float32_le (take 4 (drop (4 * i) bs))) [0..<n]"

text \<open>
  ECMAScript's \<^verbatim>\<open>ToIndex\<close>, which the typed-array constructor applies to its \<^verbatim>\<open>length\<close>
  argument: the number is truncated to an integer (\<^verbatim>\<open>ToIntegerOrInfinity\<close>) and only a
  negative integer is refused.
\<close>

definition ToIndex :: "real \<Rightarrow> error + nat" where
  "ToIndex v = (if v \<le> - 1 then Inl RangeError else Inr (nat \<lfloor>v\<rfloor>))"

text \<open>
  \<^verbatim>\<open>new Float32Array(buf.buffer, byteOffset, length)\<close>
  (ECMAScript, InitializeTypedArrayFromArrayBuffer): a \<^verbatim>\<open>RangeError\<close> when the offset is not
  a multiple of the element size 4, when \<^verbatim>\<open>ToIndex(length)\<close> fails, or when the
  \<^verbatim>\<open>4 * ToIndex(length)\<close> bytes from the offset do not fit; otherwise the array of that many
  elements. The model reads the elements from the bytes of the view, which lie inside the
  \<^verbatim>\<open>ArrayBuffer\<close>.
\<close>

definition new_Float32Array :: "buffer \<Rightarrow> nat \<Rightarrow> real \<Rightarrow> error + real list" where
  "new_Float32Array buf offset len =
     (if offset mod 4 \<noteq> 0 then Inl RangeError
      else case ToIndex len of
        Inl e \<Rightarrow> Inl e
      | Inr newLength \<Rightarrow>
          if newLength * 4 > byteLength buf then Inl RangeError
          else Inr (float32_elements (bytes buf) newLength))"

text \<open>\<^verbatim>\<open>blobToEmbedding(blob)\<close>; the blob of a row is already a \<^verbatim>\<open>Buffer\<close>.\<close>

definition blobToEmbedding :: "buffer option \<Rightarrow> error + real list option" where
  "blobToEmbedding blob =
     (case blob of
        None \<Rightarrow> Inr None
      | Some buf \<Rightarrow>
          (case new_Float32Array buf (byteOffset buf) (real (byteLength buf) / 4) of
             Inl e \<Rightarrow> Inl e
           | Inr arr \<Rightarrow> Inr (Some arr)))"

definition cosineSimilarity :: "real list option \<Rightarrow> real list option \<Rightarrow> real" where
  "cosineSimilarity a b =
     (case (a, b) of
        (Some a, Some b) \<Rightarrow>
          if length a \<noteq> length b then 0
          else
            let dot = (\<Sum>(x, y)\<leftarrow>zip a b. x * y);
                normA = (\<Sum>x\<leftarrow>a. x * x);
                normB = (\<Sum>y\<leftarrow>b. y * y);
                denom = sqrt normA * sqrt normB
            in if denom = 0 then 0 else dot / denom
      | _ \<Rightarrow> 0)"

text \<open>\<^verbatim>\<open>semanticSearch(db, queryEmbedding, limit)\<close> over
  \<^verbatim>\<open>SELECT id, embedding FROM memories WHERE embedding IS NOT NULL\<close>; an exception of
  \<^verbatim>\<open>blobToEmbedding\<close> inside \<^verbatim>\<open>map\<close> ends the call.\<close>

fun semanticSearch_map :: "real list option \<Rightarrow> memory list \<Rightarrow> error + (string \<times> real) list" where
  "semanticSearch_map q [] = Inr []"
| "semanticSearch_map q (row # rows) =
     (case blobToEmbedding (embedding row) of
        Inl e \<Rightarrow> Inl e
      | Inr emb \<Rightarrow>
          (case semanticSearch_map q rows of
             Inl e \<Rightarrow> Inl e
           | Inr scored \<Rightarrow> Inr ((mem_id row, cosineSimilarity q emb) # scored)))"

definition semanticSearch :: "store \<Rightarrow> real list option \<Rightarrow> nat \<Rightarrow> error + (string \<times> real) list" where
  "semanticSearch db q k =
     (case semanticSearch_map q (filter (\<lambda>m. embedding m \<noteq> None) (memories db)) of
        Inl e \<Rightarrow> Inl e
      | Inr scored \<Rightarrow> Inr (take k (sort_key (\<lambda>(i, sim). - sim) scored)))"

section \<open>JavaScript strings\<close>

text \<open>\<^verbatim>\<open>s || d\<close> on a nullable string: \<^verbatim>\<open>null\<close> and the empty string are falsy.\<close>

definition truthy :: "string option \<Rightarrow> bool" where
  "truthy s = (s \<noteq> None \<and> s \<noteq> Some [])"

definition or_else :: "string option \<Rightarrow> string \<Rightarrow> string" where
  "or_else s d = (case s of None \<Rightarrow> d | Some t \<Rightarrow> if t = [] then d else t)"

text \<open>
  A string is the list of its UTF-16 code units, which are taken below 256 (ASCII and
  Latin-1). \<^verbatim>\<open>toLowerCase\<close> lowers the capitals among them: \<open>A\<close> to \<open>Z\<close> and the Latin-1
  capitals \<open>0xC0\<close> to \<open>0xDE\<close> without the sign \<open>0xD7\<close>, each to the character 32 places
  further. \<^verbatim>\<open>String.prototype.includes\<close> is the search for a contiguous substring.
\<close>

definition upper_chars :: "char list" where
  "upper_chars =
     ''ABCDEFGHIJKLMNOPQRSTUVWXYZ'' @
     [CHR 0xC0, CHR 0xC1, CHR 0xC2, CHR 0xC3, CHR 0xC4, CHR 0xC5, CHR 0xC6, CHR 0xC7,
      CHR 0xC8, CHR 0xC9, CHR 0xCA, CHR 0xCB, CHR 0xCC, CHR 0xCD, CHR 0xCE, CHR 0xCF,
      CHR 0xD0, CHR 0xD1, CHR 0xD2, CHR 0xD3, CHR 0xD4, CHR 0xD5, CHR 0xD6, CHR 0xD8,
      CHR 0xD9, CHR 0xDA, CHR 0xDB, CHR 0xDC, CHR 0xDD, CHR 0xDE]"

definition lower_chars :: "char list" where
  "lower_chars =
     ''abcdefghijklmnopqrstuvwxyz'' @
     [CHR 0xE0, CHR 0xE1, CHR 0xE2, CHR 0xE3, CHR 0xE4, CHR 0xE5, CHR 0xE6, CHR 0xE7,
      CHR 0xE8, CHR 0xE9, CHR 0xEA, CHR 0xEB, CHR 0xEC, CHR 0xED, CHR 0xEE, CHR 0xEF,
      CHR 0xF0, CHR 0xF1, CHR 0xF2, CHR 0xF3, CHR 0xF4, CHR 0xF5, CHR 0xF6, CHR 0xF8,
      CHR 0xF9, CHR 0xFA, CHR 0xFB, CHR 0xFC, CHR 0xFD, CHR 0xFE]"

definition lower_char :: "char \<Rightarrow> char" where
  "lower_char c = (case map_of (zip upper_chars lower_chars) c of None \<Rightarrow> c | Some l \<Rightarrow> l)"

definition toLowerCase :: "string \<Rightarrow> string" where
  "toLowerCase s = map lower_char s"

fun str_includes :: "string \<Rightarrow> string \<Rightarrow> bool" where
  "str_includes [] sub = (sub = [])"
| "str_includes (c # s) sub = (prefix sub (c # s) \<or> str_includes s sub)"

section \<open>Co-occurrence engine\<close>

text \<open>
  The object \<^verbatim>\<open>boosts\<close> of \<^verbatim>\<open>getSpreadingActivation\<close> as a list of its entries in
  insertion order; \<^verbatim>\<open>boosts[k] = (boosts[k] || 0) + v\<close>. (An object lists keys that are
  array indices first and inherits the members of \<^verbatim>\<open>Object.prototype\<close>; the ids the
  ingesters build all contain a colon and are neither.)
\<close>

fun add_boost :: "(string \<times> real) list \<Rightarrow> string \<Rightarrow> real \<Rightarrow> (string \<times> real) list" where
  "add_boost [] k v = [(k, 0 + v)]"
| "add_boost ((k', b) # boosts) k v =
     (if k' = k then (k', b + v) # boosts else (k', b) # add_boost boosts k v)"

definition spread_boosts :: "store \<Rightarrow> string list \<Rightarrow> (string \<times> real) list" where
  "spread_boosts db activeIds =
     fold (\<lambda>i boosts.
            fold (\<lambda>(related_id, weight) boosts.
                   if related_id \<in> set activeIds then boosts
                   else add_boost boosts related_id (weight * 0.3))
                 (getCoOccurrences db i 20) boosts)
          activeIds []"

text \<open>The \<^verbatim>\<open>.map(...).filter(Boolean)\<close> at the end of \<^verbatim>\<open>getSpreadingActivation\<close>:
  each id with its row and boost, ids without a row dropped.\<close>

fun with_rows :: "store \<Rightarrow> (string \<times> real) list \<Rightarrow> (memory \<times> real) list" where
  "with_rows db [] = []"
| "with_rows db ((i, boost) # rest) =
     (case getMemory db i of
        None \<Rightarrow> with_rows db rest
      | Some mem \<Rightarrow> (mem, boost) # with_rows db rest)"

text \<open>\<^verbatim>\<open>getSpreadingActivation(db, activeIds, limit)\<close>: the entries sorted by descending
  boost (\<^verbatim>\<open>Array.prototype.sort\<close> is stable), the first \<open>k\<close> of them, each with its row.\<close>

definition getSpreadingActivation :: "store \<Rightarrow> string list \<Rightarrow> nat \<Rightarrow> (memory \<times> real) list" where
  "getSpreadingActivation db activeIds k =
     with_rows db (take k (sort_key (\<lambda>(i, boost). - boost) (spread_boosts db activeIds)))"

section \<open>Retrieval pipeline\<close>

record options =
  queryEmbedding :: "real list option"
  domains :: "string list"
  limit :: int
  tokenBudget :: int
  semanticWeight :: real
  activationWeight :: real
  domainWeight :: real

text \<open>The defaults of the destructuring in \<^verbatim>\<open>retrieve\<close>.\<close>

definition default_options :: options where
  "default_options =
     \<lparr>queryEmbedding = None, domains = [], limit = 20, tokenBudget = 800,
      semanticWeight = 0.6, activationWeight = 0.3, domainWeight = 0.1\<rparr>"

text \<open>An element of the returned list: the row spread into an object with \<^verbatim>\<open>score\<close> and
  \<^verbatim>\<open>semanticSim\<close>, or, for an item of the fill pass, with \<^verbatim>\<open>spreadBoost\<close>,
  \<^verbatim>\<open>score\<close> and \<^verbatim>\<open>spreadingActivation: true\<close>. A property the object does not have
  is \<open>None\<close>, respectively \<open>False\<close>.\<close>

record result =
  entry :: memory
  score :: real
  semanticSim :: "real option"
  spreadBoost :: "real option"
  spreadingActivation :: bool

subsection \<open>Candidate selection\<close>

text \<open>\<^verbatim>\<open>status = 'active' OR status IS NULL\<close>.\<close>

definition is_active :: "memory \<Rightarrow> bool" where
  "is_active m = (status m = Some ''active'' \<or> status m = None)"

text \<open>\<^verbatim>\<open>ORDER BY activation DESC\<close>; rows of equal activation stay in table order.\<close>

definition order_by_activation_desc :: "memory list \<Rightarrow> memory list" where
  "order_by_activation_desc rows = sort_key (\<lambda>m. - activation m) rows"

text \<open>The \<^verbatim>\<open>domainQuery\<close> of the domain-only mode, run for each hint in turn.\<close>

definition domainQuery :: "store \<Rightarrow> string \<Rightarrow> memory list" where
  "domainQuery db d =
     order_by_activation_desc (filter (\<lambda>m. domain m = Some d \<and> is_active m) (memories db))"

definition domain_candidates :: "store \<Rightarrow> string list \<Rightarrow> memory list" where
  "domain_candidates db ds = concat (map (domainQuery db) ds)"

definition candidates :: "store \<Rightarrow> options \<Rightarrow> memory list" where
  "candidates db opts =
     (if queryEmbedding opts \<noteq> None
      then filter (\<lambda>m. embedding m \<noteq> None \<and> is_active m) (memories db)
      else if length (domains opts) > 0
      then domain_candidates db (domains opts)
      else take 100 (order_by_activation_desc (filter is_active (memories db))))"

subsection \<open>Normalised activation\<close>

text \<open>
  \<^verbatim>\<open>activations[Math.floor(activations.length * 0.95)] || 1\<close> on the ascending activations.
  The double \<^verbatim>\<open>n * 0.95\<close> has the floor \<open>19 n div 20\<close> for every length a list can have, and
  that index is inside a non-empty list. \<^verbatim>\<open>x || 1\<close> replaces the falsy \<open>0\<close>.
\<close>

definition p95_of :: "memory list \<Rightarrow> real" where
  "p95_of cands =
     (let activations = sort (map activation cands);
          v = activations ! (length activations * 19 div 20)
      in if v = 0 then 1 else v)"

definition maxActivation_of :: "memory list \<Rightarrow> real" where
  "maxActivation_of cands = max (p95_of cands) 1"

text \<open>\<^verbatim>\<open>Math.min((entry.activation || 0) / maxActivation, 1)\<close>.\<close>

definition normAct :: "memory \<Rightarrow> real \<Rightarrow> real" where
  "normAct e maxActivation = min (activation e / maxActivation) 1"

subsection \<open>Scoring\<close>

definition type_bonus :: "string option \<Rightarrow> real" where
  "type_bonus t =
     (if t = Some ''rule'' \<or> t = Some ''directive'' then 0.08 else 0)
     + (if t = Some ''correction'' \<or> t = Some ''bug-insight'' then 0.05 else 0)
     + (if t = Some ''command'' then 0.04 else 0)
     + (if t = Some ''solution'' then 0.03 else 0)"

definition penalties :: "memory \<Rightarrow> real" where
  "penalties e =
     (let isGeneral = (or_else (domain e) ''general'' = ''general'');
          isDailyLog = str_includes (toLowerCase (or_else (title e) [])) ''daily log'';
          isLegacyFile = (\<not> truthy (pattern_type e));
          detail = or_else (detail e) (or_else (title e) [])
      in (if isGeneral then 0.2 else 0)
         + (if isDailyLog then 0.25 else 0)
         + (if isLegacyFile then 0.1 else 0)
         + (if length detail < 20 then 0.15 else 0))"

text \<open>\<open>now\<close> is \<^verbatim>\<open>Date.now()\<close>, in milliseconds.\<close>

definition recency_bonus :: "int \<Rightarrow> memory \<Rightarrow> real" where
  "recency_bonus now e =
     (case last_retrieved e of
        None \<Rightarrow> 0
      | Some t \<Rightarrow> if real_of_int (now - t) / 3600000 < 24 then 0.03 else 0)"

definition domain_bonus :: "options \<Rightarrow> memory \<Rightarrow> real" where
  "domain_bonus opts e =
     (if length (domains opts) > 0 \<and> truthy (domain e)
      then (if \<exists>d \<in> set (domains opts).
                 str_includes (toLowerCase (or_else (domain e) [])) (toLowerCase d)
            then domainWeight opts else 0)
      else 0)"

text \<open>The body of the scoring loop for one candidate: an exception (\<open>Inl\<close>), the
  \<^verbatim>\<open>continue\<close> of the hard floor (\<open>Inr None\<close>) or the scored entry.\<close>

definition score_entry :: "options \<Rightarrow> int \<Rightarrow> real \<Rightarrow> memory \<Rightarrow> error + result option" where
  "score_entry opts now maxActivation e =
     (case (if queryEmbedding opts \<noteq> None \<and> embedding e \<noteq> None
            then (case blobToEmbedding (embedding e) of
                    Inl err \<Rightarrow> Inl err
                  | Inr emb \<Rightarrow> Inr (cosineSimilarity (queryEmbedding opts) emb))
            else Inr 0) of
        Inl err \<Rightarrow> Inl err
      | Inr sim \<Rightarrow>
          if queryEmbedding opts \<noteq> None \<and> sim < 0.3 then Inr None
          else Inr (Some
            \<lparr>entry = e,
             score = sim * semanticWeight opts
                     + normAct e maxActivation * activationWeight opts
                     + recency_bonus now e
                     + domain_bonus opts e
                     + type_bonus (pattern_type e)
                     - penalties e,
             semanticSim = Some sim,
             spreadBoost = None,
             spreadingActivation = False\<rparr>))"

fun score_loop :: "options \<Rightarrow> int \<Rightarrow> real \<Rightarrow> memory list \<Rightarrow> error + result list" where
  "score_loop opts now maxActivation [] = Inr []"
| "score_loop opts now maxActivation (e # es) =
     (case score_entry opts now maxActivation e of
        Inl err \<Rightarrow> Inl err
      | Inr r \<Rightarrow>
          (case score_loop opts now maxActivation es of
             Inl err \<Rightarrow> Inl err
           | Inr scored \<Rightarrow> Inr (case r of None \<Rightarrow> scored | Some x \<Rightarrow> x # scored)))"

subsection \<open>Token-budgeted selection\<close>

text \<open>\<^verbatim>\<open>(detail || title || "").length + 20\<close>, the characters an entry is charged.\<close>

definition entryChars :: "memory \<Rightarrow> nat" where
  "entryChars e = length (or_else (detail e) (or_else (title e) [])) + 20"

text \<open>The selection loop over the ranked list with its state \<^verbatim>\<open>selected\<close>,
  \<^verbatim>\<open>charsUsed\<close>, \<^verbatim>\<open>seenDomains\<close>; it returns \<^verbatim>\<open>selected\<close> and \<^verbatim>\<open>charsUsed\<close>.\<close>

fun select_loop ::
  "int \<Rightarrow> int \<Rightarrow> result list \<Rightarrow> result list \<Rightarrow> nat \<Rightarrow> (string \<rightharpoonup> nat) \<Rightarrow> result list \<times> nat"
where
  "select_loop charBudget lim' [] selected charsUsed seenDomains = (selected, charsUsed)"
| "select_loop charBudget lim' (r # scored) selected charsUsed seenDomains =
     (if int (charsUsed + entryChars (entry r)) > charBudget \<and> length selected > 0
      then (selected, charsUsed)
      else
        let dom' = or_else (domain (entry r)) ''general'';
            domCount = (case seenDomains dom' of None \<Rightarrow> 0 | Some c \<Rightarrow> c)
        in if domCount \<ge> 3 then select_loop charBudget lim' scored selected charsUsed seenDomains
           else if int (length (selected @ [r])) \<ge> lim'
           then (selected @ [r], charsUsed + entryChars (entry r))
           else select_loop charBudget lim' scored (selected @ [r])
                  (charsUsed + entryChars (entry r)) (seenDomains(dom' \<mapsto> domCount + 1)))"

subsection \<open>Spreading-activation fill\<close>

fun fill_loop :: "int \<Rightarrow> (memory \<times> real) list \<Rightarrow> result list \<Rightarrow> nat \<Rightarrow> result list" where
  "fill_loop charBudget [] selected charsUsed = selected"
| "fill_loop charBudget ((rel, boost) # related) selected charsUsed =
     (if int (charsUsed + entryChars rel) > charBudget then selected
      else fill_loop charBudget related
             (selected @ [\<lparr>entry = rel, score = boost * 0.01, semanticSim = None,
                            spreadBoost = Some boost, spreadingActivation = True\<rparr>])
             (charsUsed + entryChars rel))"

definition spread_fill :: "store \<Rightarrow> int \<Rightarrow> result list \<Rightarrow> nat \<Rightarrow> result list" where
  "spread_fill db charBudget selected charsUsed =
     (if real charsUsed < real_of_int charBudget * 0.9 \<and> length selected > 0
      then fill_loop charBudget
             (getSpreadingActivation db (map (\<lambda>s. mem_id (entry s)) selected) 8)
             selected charsUsed
      else selected)"

subsection \<open>The function \<^verbatim>\<open>retrieve(db, options)\<close>\<close>

text \<open>\<open>now\<close> stands for the \<^verbatim>\<open>Date.now()\<close> of the scoring loop, one instant for the call. The
  result is the exception that ends the call (\<open>Inl\<close>) or the returned list.\<close>

definition retrieve :: "int \<Rightarrow> store \<Rightarrow> options \<Rightarrow> error + result list" where
  "retrieve now db opts =
     (let cands = candidates db opts
      in if length cands = 0 then Inr []
         else
           case score_loop opts now (maxActivation_of cands) cands of
             Inl err \<Rightarrow> Inl err
           | Inr scored \<Rightarrow>
               let ranked = sort_key (\<lambda>r. - score r) scored;
                   charBudget = tokenBudget opts * 4;
                   (selected, charsUsed) = select_loop charBudget (limit opts) ranked [] 0 Map.empty
               in Inr (spread_fill db charBudget selected charsUsed))"

section \<open>Wiring co-occurrences\<close>

text \<open>
  \<^verbatim>\<open>byDomain\<close> is a plain object used as a dictionary from domain to id list; the model keeps
  its own properties in insertion order. A plain object inherits the members of
  \<^verbatim>\<open>Object.prototype\<close>: for a domain with one of these names \<^verbatim>\<open>byDomain[d]\<close> is already
  truthy, no array is stored, and \<^verbatim>\<open>byDomain[d].push(id)\<close> throws a \<^verbatim>\<open>TypeError\<close>
  (before the transaction starts). \<^verbatim>\<open>Object.values\<close> lists keys that are array indices
  first; the weights written do not depend on the order of the groups.
\<close>

definition object_prototype_keys :: "string list" where
  "object_prototype_keys =
     [''constructor'', ''__defineGetter__'', ''__defineSetter__'', ''hasOwnProperty'',
      ''__lookupGetter__'', ''__lookupSetter__'', ''isPrototypeOf'', ''propertyIsEnumerable'',
      ''toString'', ''valueOf'', ''__proto__'', ''toLocaleString'']"

fun group_push :: "(string \<times> string list) list \<Rightarrow> string \<Rightarrow> string \<Rightarrow> (string \<times> string list) list" where
  "group_push [] d i = [(d, [i])]"
| "group_push ((d', members) # byDomain) d i =
     (if d' = d then (d', members @ [i]) # byDomain
      else (d', members) # group_push byDomain d i)"

fun group_by_domain ::
  "store \<Rightarrow> string list \<Rightarrow> (string \<times> string list) list \<Rightarrow> error + (string \<times> string list) list"
where
  "group_by_domain db [] byDomain = Inr byDomain"
| "group_by_domain db (i # ids) byDomain =
     (case getMemory db i of
        None \<Rightarrow> group_by_domain db ids byDomain
      | Some mem \<Rightarrow>
          let d = or_else (domain mem) ''general''
          in if d \<in> set object_prototype_keys then Inl TypeError
             else group_by_domain db ids (group_push byDomain d i))"

text \<open>The index pairs \<open>i < j\<close> of the two nested loops, in their order.\<close>

fun pairs :: "'a list \<Rightarrow> ('a \<times> 'a) list" where
  "pairs [] = []"
| "pairs (x # xs) = map (Pair x) xs @ pairs xs"

definition wire_pair :: "string \<times> string \<Rightarrow> co_row list \<Rightarrow> co_row list" where
  "wire_pair p rows = insertCoOcc (insertCoOcc rows (fst p) (snd p) 1) (snd p) (fst p) 1"

definition wire_group :: "string \<times> string list \<Rightarrow> co_row list \<Rightarrow> co_row list" where
  "wire_group g rows = (if length (snd g) < 2 then rows else fold wire_pair (pairs (snd g)) rows)"

text \<open>\<^verbatim>\<open>wireCoOccurrences(db, ids)\<close>. The ids wired are ids of rows just read, so the foreign
  keys of the inserted edges hold and the transaction commits.\<close>

definition wireCoOccurrences :: "store \<Rightarrow> string list \<Rightarrow> error + store" where
  "wireCoOccurrences db ids =
     (case group_by_domain db ids [] of
        Inl err \<Rightarrow> Inl err
      | Inr byDomain \<Rightarrow> Inr (db\<lparr>co_occurrences := fold wire_group byDomain (co_occurrences db)\<rparr>))"

text \<open>The co-occurrence tables that calls of \<^verbatim>\<open>wireCoOccurrences\<close> produce from the empty
  table, whatever the \<^verbatim>\<open>memories\<close> table holds at each call.\<close>

inductive wired :: "co_row list \<Rightarrow> bool" where
  wired_empty: "wired []"
| wired_step: "wired g \<Longrightarrow>
     wireCoOccurrences \<lparr>memories = ms, co_occurrences = g\<rparr> ids = Inr db' \<Longrightarrow>
     wired (co_occurrences db')"

section \<open>Ingestion\<close>

subsection \<open>Upsert\<close>

text \<open>
  \<^verbatim>\<open>upsertMemory(db, entry)\<close>: \<^verbatim>\<open>INSERT OR REPLACE\<close> of the entry with the defaults of its
  \<^verbatim>\<open>||\<close> operators. The entry object is given as a row whose absent properties are
  \<open>None\<close>; both ingesters set \<^verbatim>\<open>created\<close>. \<^verbatim>\<open>REPLACE\<close> deletes the row that holds the id,
  which cascades to the co-occurrence edges of that id
  (\<^verbatim>\<open>ON DELETE CASCADE\<close>, foreign keys are on), and the new row gets a fresh rowid at the
  end of the table. The table \<^verbatim>\<open>tags\<close>, which no property here reads, is not modelled.
\<close>

definition null_if_falsy :: "string option \<Rightarrow> string option" where
  "null_if_falsy s = (if truthy s then s else None)"

definition upsertMemory :: "store \<Rightarrow> memory \<Rightarrow> store" where
  "upsertMemory db e =
     (let row = e\<lparr>title := null_if_falsy (title e),
                  source := null_if_falsy (source e),
                  source_section := null_if_falsy (source_section e),
                  content_hash := null_if_falsy (content_hash e),
                  detail := null_if_falsy (detail e),
                  domain := null_if_falsy (domain e),
                  pattern_type := null_if_falsy (pattern_type e),
                  status := Some (or_else (status e) ''active''),
                  superseded_by := null_if_falsy (superseded_by e),
                  corrects := null_if_falsy (corrects e)\<rparr>
      in \<lparr>memories = filter (\<lambda>m. mem_id m \<noteq> mem_id e) (memories db) @ [row],
          co_occurrences =
            (if getMemory db (mem_id e) \<noteq> None
             then filter (\<lambda>(a, b, w). a \<noteq> mem_id e \<and> b \<noteq> mem_id e) (co_occurrences db)
             else co_occurrences db)\<rparr>)"

subsection \<open>Candidate ids\<close>

text \<open>A candidate pattern as the extractors hand it over (\<^verbatim>\<open>summary\<close>, \<^verbatim>\<open>detail\<close>,
  \<^verbatim>\<open>type\<close>, and from the atomizer \<^verbatim>\<open>domain\<close> and \<^verbatim>\<open>section\<close>).\<close>

record atomic =
  a_summary :: string
  a_detail :: string
  a_type :: string
  a_domain :: string
  a_section :: string

text \<open>\<^verbatim>\<open>Number.prototype.toString(16)\<close> of a non-negative integer.\<close>

fun hex :: "nat \<Rightarrow> string" where
  "hex n = (if n < 16 then [''0123456789abcdef'' ! n]
            else hex (n div 16) @ [''0123456789abcdef'' ! (n mod 16)])"

text \<open>\<^verbatim>\<open>hashContent(content)\<close> of the manager: the rolling hash
  \<^verbatim>\<open>hash = ((hash << 5) - hash) + char; hash = hash & hash\<close> on 32-bit integers, printed in
  base 16 with a minus sign when negative. \<^verbatim>\<open>charCodeAt\<close> is the character code.\<close>

definition hash32 :: "string \<Rightarrow> 32 word" where
  "hash32 content = fold (\<lambda>c hash. (push_bit 5 hash - hash) + of_nat (of_char c)) content 0"

definition hashContent :: "string \<Rightarrow> string" where
  "hashContent content =
     (let h = sint (hash32 content)
      in if h < 0 then CHR ''-'' # hex (nat (- h)) else hex (nat h))"

text \<open>\<^verbatim>\<open>inferDomain(text)\<close>: the first keyword of the table, in the order of the object's
  properties, that the lower-cased text contains. The literal names \<^verbatim>\<open>fiverr\<close> and
  \<^verbatim>\<open>etsy\<close> twice: such a property keeps its first position and takes the last value.\<close>

definition domain_keywords :: "(string \<times> string) list" where
  "domain_keywords =
     [(''peekaboo'', ''peekaboo-web''), (''safari'', ''peekaboo-web''), (''browser'', ''peekaboo-web''),
      (''comfyui'', ''comfyui''), (''dreamshaper'', ''comfyui''), (''animatediff'', ''comfyui''),
      (''tiktok'', ''tiktok''), (''ffmpeg'', ''video-pipeline''), (''qwen'', ''tts''), (''voice'', ''tts''),
      (''podcast'', ''podcast''), (''fiverr'', ''business''), (''etsy'', ''business''),
      (''telegram'', ''telegram''), (''openclaw'', ''openclaw''), (''hebbian'', ''hebbian''),
      (''memory'', ''hebbian''), (''ollama'', ''ollama''), (''deepseek'', ''deepseek''), (''n8n'', ''n8n''),
      (''applescript'', ''macos''), (''keychain'', ''macos''), (''sqlite'', ''infrastructure''),
      (''esrgan'', ''video-pipeline''), (''ken burns'', ''video-pipeline''),
      (''alpaca'', ''trading''), (''trading'', ''trading''), (''stock'', ''trading''),
      (''patreon'', ''business'')]"

definition inferDomain :: "string \<Rightarrow> string" where
  "inferDomain text =
     (case find (\<lambda>(kw, d). str_includes (toLowerCase text) kw) domain_keywords of
        None \<Rightarrow> ''general''
      | Some (kw, d) \<Rightarrow> d)"

text \<open>The id of the session extractor:
  \<^verbatim>\<open>`${domain}:session:${hashContent(atomic.summary)}`\<close>.\<close>

definition session_id :: "atomic \<Rightarrow> string" where
  "session_id a = inferDomain (a_detail a) @ '':session:'' @ hashContent (a_summary a)"

text \<open>\<^verbatim>\<open>atomicId(domain, summary)\<close> of the atomizer: lower case, every character outside
  \<^verbatim>\<open>[a-z0-9\s-]\<close> removed, every run of white space replaced by one \<^verbatim>\<open>-\<close>, the first 50
  characters. The white space \<^verbatim>\<open>\s\<close> matches below 256: the blank, the controls
  \<open>0x09\<close> to \<open>0x0D\<close> and the no-break space \<open>0xA0\<close>.\<close>

definition is_space :: "char \<Rightarrow> bool" where
  "is_space c = (c \<in> set [CHR '' '', CHR 0x09, CHR 0x0A, CHR 0x0B, CHR 0x0C, CHR 0x0D, CHR 0xA0])"

text \<open>\<^verbatim>\<open>replace(/\s+/g, "-")\<close>; the flag says that the previous character was white space.\<close>

fun dash_spaces :: "bool \<Rightarrow> string \<Rightarrow> string" where
  "dash_spaces in_run [] = []"
| "dash_spaces in_run (c # s) =
     (if is_space c
      then (if in_run then dash_spaces True s else CHR ''-'' # dash_spaces True s)
      else c # dash_spaces False s)"

definition atomicId :: "string \<Rightarrow> string \<Rightarrow> string" where
  "atomicId d summary =
     (let clean = take 50 (dash_spaces False
                    (filter (\<lambda>c. c \<in> set ''abcdefghijklmnopqrstuvwxyz0123456789-'' \<or> is_space c)
                       (toLowerCase summary)))
      in d @ '':'' @ clean)"

subsection \<open>ID-level deduplication\<close>

text \<open>\<^verbatim>\<open>db.prepare("SELECT 1 FROM memories WHERE id = ?").get(id)\<close> as a condition: a row
  with the id exists.\<close>

definition id_exists :: "store \<Rightarrow> string \<Rightarrow> bool" where
  "id_exists db i = (filter (\<lambda>m. mem_id m = i) (memories db) \<noteq> [])"

text \<open>The loop of the session extractor's \<^verbatim>\<open>main\<close> that builds \<^verbatim>\<open>newEntries\<close> and counts
  \<^verbatim>\<open>skippedById\<close>; the store is only read. \<open>now\<close> is the time of \<^verbatim>\<open>new Date()\<close>.\<close>

definition session_entry :: "int \<Rightarrow> atomic \<Rightarrow> memory" where
  "session_entry now a =
     \<lparr>mem_id = session_id a, title = Some (a_summary a), source = Some ''session-extraction'',
      source_section = Some (inferDomain (a_detail a) @ ''/session''), created = now,
      last_retrieved = Some now, retrieval_count = 1,
      content_hash = Some (hashContent (a_detail a)), activation = 0.5,
      detail = Some (a_detail a), domain = Some (inferDomain (a_detail a)),
      pattern_type = Some (a_type a), embedding = None, status = None,
      superseded_by = None, corrects = None\<rparr>"

fun session_dedup :: "store \<Rightarrow> int \<Rightarrow> atomic list \<Rightarrow> memory list \<times> nat \<Rightarrow> memory list \<times> nat" where
  "session_dedup db now [] (newEntries, skippedById) = (newEntries, skippedById)"
| "session_dedup db now (a # allAtomics) (newEntries, skippedById) =
     (if id_exists db (session_id a)
      then session_dedup db now allAtomics (newEntries, skippedById + 1)
      else session_dedup db now allAtomics (newEntries @ [session_entry now a], skippedById))"

text \<open>The loop of the atomizer's \<^verbatim>\<open>extract\<close> command, which upserts each new entry at
  once; it returns the store and the counters \<^verbatim>\<open>added\<close> and \<^verbatim>\<open>skipped\<close>.\<close>

definition atomize_entry :: "int \<Rightarrow> atomic \<Rightarrow> memory" where
  "atomize_entry now a =
     \<lparr>mem_id = atomicId (a_domain a) (a_summary a), title = Some (a_summary a),
      source = Some ''atomic'',
      source_section = Some (a_domain a @ ''/'' @ (if a_section a = [] then ''general'' else a_section a)),
      created = now, last_retrieved = Some now, retrieval_count = 1,
      content_hash = Some (hashContent (a_detail a)), activation = 0.5,
      detail = Some (a_detail a), domain = Some (a_domain a),
      pattern_type = Some (a_type a), embedding = None, status = None,
      superseded_by = None, corrects = None\<rparr>"

fun atomize_extract :: "int \<Rightarrow> atomic list \<Rightarrow> store \<times> nat \<times> nat \<Rightarrow> store \<times> nat \<times> nat" where
  "atomize_extract now [] (db, added, skipped) = (db, added, skipped)"
| "atomize_extract now (a # allAtomics) (db, added, skipped) =
     (if id_exists db (atomicId (a_domain a) (a_summary a))
      then atomize_extract now allAtomics (db, added, skipped + 1)
      else atomize_extract now allAtomics (upsertMemory db (atomize_entry now a), added + 1, skipped))"

section \<open>Notions the properties are stated with\<close>

text \<open>The ids that have a row in \<^verbatim>\<open>memories\<close>.\<close>

definition stored_ids :: "store \<Rightarrow> string set" where
  "stored_ids db = mem_id ` set (memories db)"

text \<open>What the activation engine's bump makes of a row whose id is listed, once for each
  time the id is listed; a row whose id is not listed stays as it is.\<close>

definition bumped_row :: "string list \<Rightarrow> real \<Rightarrow> int \<Rightarrow> memory \<Rightarrow> memory" where
  "bumped_row ids amount now m =
     (if mem_id m \<in> set ids
      then m\<lparr>activation := activation m + amount * real (count_list ids (mem_id m)),
             retrieval_count := retrieval_count m + int (count_list ids (mem_id m)),
             last_retrieved := Some now\<rparr>
      else m)"

text \<open>The weight of the directed edge \<open>(a, b)\<close> in a co-occurrence table, the key of a row,
  and the two properties of a table: no key twice (the primary key) and equal weights in
  both directions.\<close>

fun weight_of :: "co_row list \<Rightarrow> string \<Rightarrow> string \<Rightarrow> real option" where
  "weight_of [] a b = None"
| "weight_of ((a', b', w) # rows) a b = (if a' = a \<and> b' = b then Some w else weight_of rows a b)"

definition weight_or0 :: "co_row list \<Rightarrow> string \<Rightarrow> string \<Rightarrow> real" where
  "weight_or0 rows a b = (case weight_of rows a b of None \<Rightarrow> 0 | Some v \<Rightarrow> v)"

definition co_key :: "co_row \<Rightarrow> string \<times> string" where
  "co_key r = (fst r, fst (snd r))"

definition keys_distinct :: "co_row list \<Rightarrow> bool" where
  "keys_distinct rows = distinct (map co_key rows)"

definition symmetric :: "co_row list \<Rightarrow> bool" where
  "symmetric rows = (\<forall>a b. weight_of rows a b = weight_of rows b a)"

text \<open>The characters charged for a returned list.\<close>

definition total_chars :: "result list \<Rightarrow> nat" where
  "total_chars rs = sum_list (map (\<lambda>r. entryChars (entry r)) rs)"

text \<open>Every stored blob starts at a multiple of 4 bytes in its \<^verbatim>\<open>ArrayBuffer\<close>, as the
  buffers do that the SQLite driver allocates for the rows it returns.\<close>

definition blobs_aligned :: "store \<Rightarrow> bool" where
  "blobs_aligned db =
     (\<forall>m \<in> set (memories db). \<forall>buf. embedding m = Some buf \<longrightarrow> byteOffset buf mod 4 = 0)"



text \<open>The ids the atomizer computes for a list of candidates.\<close>

definition atomic_ids :: "atomic list \<Rightarrow> string set" where
  "atomic_ids as = (\<lambda>a. atomicId (a_domain a) (a_summary a)) ` set as"

subsection \<open>Example stores\<close>

definition mk_row :: "string \<Rightarrow> string \<Rightarrow> string \<Rightarrow> real \<Rightarrow> buffer option \<Rightarrow> string \<Rightarrow> memory" where
  "mk_row i d det act emb st =
     \<lparr>mem_id = i, title = None, source = None, source_section = None, created = 0,
      last_retrieved = None, retrieval_count = 0, content_hash = None, activation = act,
      detail = Some det, domain = Some d, pattern_type = Some ''rule'', embedding = emb,
      status = Some st, superseded_by = None, corrects = None\<rparr>"

text \<open>Two rows of one domain, wired to each other; the second is deprecated.\<close>

definition tts_store :: store where
  "tts_store =
     \<lparr>memories =
        [mk_row ''tts:a'' ''tts'' ''Use the edge-tts voice for narration'' 1 None ''active'',
         mk_row ''tts:b'' ''tts'' ''Use the festival voice for narration'' 1 None ''deprecated''],
      co_occurrences = [(''tts:a'', ''tts:b'', 1), (''tts:b'', ''tts:a'', 1)]\<rparr>"

text \<open>What \<^verbatim>\<open>retrieve\<close> returns on that store with the default options: the active row,
  then its deprecated neighbour from the fill pass.\<close>

definition tts_result :: "result list" where
  "tts_result =
     [\<lparr>entry = mk_row ''tts:a'' ''tts'' ''Use the edge-tts voice for narration'' 1 None ''active'',
       score = 0.38, semanticSim = Some 0, spreadBoost = None, spreadingActivation = False\<rparr>,
      \<lparr>entry = mk_row ''tts:b'' ''tts'' ''Use the festival voice for narration'' 1 None ''deprecated'',
       score = 0.003, semanticSim = None, spreadBoost = Some 0.3, spreadingActivation = True\<rparr>]"

text \<open>The same two rows, both active and with embeddings: the float32 vectors \<open>(1, 0)\<close> and
  \<open>(0, 1)\<close>. The second row has the highest activation of the store and cosine similarity
  0 to the query \<open>(1, 0)\<close>.\<close>

definition vec_10 :: buffer where
  "vec_10 = \<lparr>byteOffset = 0, bytes = [0, 0, 0x80, 0x3F, 0, 0, 0, 0]\<rparr>"




text \<open>A row with a negative activation, alone in its store.\<close>

definition neg_row :: memory where
  "neg_row = mk_row ''tts:n'' ''tts'' ''Use the edge-tts voice for narration'' (- 2) None ''active''"

definition neg_store :: store where
  "neg_store = \<lparr>memories = [neg_row], co_occurrences = []\<rparr>"

text \<open>A blob of five bytes, the float32 \<open>1.0\<close> and one byte more, and a store that holds
  it next to a well-formed embedding.\<close>

definition vec_5 :: buffer where
  "vec_5 = \<lparr>byteOffset = 0, bytes = [0, 0, 0x80, 0x3F, 0]\<rparr>"

definition odd_store :: store where
  "odd_store =
     \<lparr>memories =
        [mk_row ''tts:a'' ''tts'' ''Use the edge-tts voice for narration'' 1 (Some vec_10) ''active'',
         mk_row ''tts:c'' ''tts'' ''Use the festival voice for narration'' 1 (Some vec_5) ''active''],
      co_occurrences = []\<rparr>"

text \<open>A candidate of the session extractor (a discovery sentence of a transcript) and one
  of the atomizer (a bold bullet of \<^verbatim>\<open>tts.md\<close>), and a store whose only rows are
  deprecated and carry the ids the two ingesters compute for them.\<close>

definition cand_session :: atomic where
  "cand_session =
     \<lparr>a_summary = ''I found that the voice clone needs a 24kHz reference sample.'',
      a_detail = ''I found that the voice clone needs a 24kHz reference sample.'',
      a_type = ''discovery'', a_domain = [], a_section = []\<rparr>"

definition cand_atomic :: atomic where
  "cand_atomic =
     \<lparr>a_summary = ''Voice clone needs a 24kHz reference sample'',
      a_detail = ''Voice clone needs a 24kHz reference sample'',
      a_type = ''rule'', a_domain = ''tts'', a_section = ''Voices''\<rparr>"

definition dep_store :: store where
  "dep_store =
     \<lparr>memories =
        [mk_row ''tts:session:7b24bd24'' ''tts''
           ''I found that the voice clone needs a 24kHz reference sample.'' 1 None ''deprecated'',
         mk_row ''tts:voice-clone-needs-a-24khz-reference-sample'' ''tts''
           ''Voice clone needs a 24kHz reference sample'' 1 None ''deprecated''],
      co_occurrences = []\<rparr>"

section \<open>Activation bump\<close>

lemma bumped_row_Cons:
  "bumped_row idList amount now (if mem_id m = i then bumpActivation_row amount now m else m)
     = bumped_row (i # idList) amount now m"
  by (simp add: bumped_row_def bumpActivation_row_def algebra_simps)

lemma changes_pos_iff:
  "0 < length (filter (\<lambda>m. mem_id m = i) (memories db)) \<longleftrightarrow> i \<in> stored_ids db"
  by (auto simp: stored_ids_def filter_empty_conv)

lemma stored_ids_bumpActivation:
  "stored_ids (fst (bumpActivation db amount now i)) = stored_ids db"
proof -
  have "map mem_id (memories (fst (bumpActivation db amount now i))) = map mem_id (memories db)"
    by (simp add: bumpActivation_def bumpActivation_row_def o_def if_distrib cong: if_cong)
  then show ?thesis
    unfolding stored_ids_def by (metis set_map)
qed

lemma bumpTx_closed:
  "bumpTx amount now ids (db, n) =
     (db\<lparr>memories := map (bumped_row ids amount now) (memories db)\<rparr>,
      n + length (filter (\<lambda>i. i \<in> stored_ids db) ids))"
proof (induction ids arbitrary: db n)
  case Nil
  show ?case by (simp add: bumped_row_def)
next
  case (Cons i idList)
  obtain db' changes where b: "bumpActivation db amount now i = (db', changes)"
    by (cases "bumpActivation db amount now i")
  have db': "db' = db\<lparr>memories := map (\<lambda>m. if mem_id m = i then bumpActivation_row amount now m else m) (memories db)\<rparr>"
    and ch: "changes = length (filter (\<lambda>m. mem_id m = i) (memories db))"
    using b by (simp_all add: bumpActivation_def)
  have ids: "stored_ids db' = stored_ids db"
    using stored_ids_bumpActivation[of db amount now i] b by simp
  have pos: "0 < changes \<longleftrightarrow> i \<in> stored_ids db"
    unfolding ch by (rule changes_pos_iff)
  have rows: "map (bumped_row idList amount now) (memories db')
      = map (bumped_row (i # idList) amount now) (memories db)"
    unfolding db' by (simp add: o_def bumped_row_Cons)
  have "bumpTx amount now (i # idList) (db, n)
      = bumpTx amount now idList (db', if 0 < changes then n + 1 else n)"
    by (simp add: b)
  also have "\<dots> = (db'\<lparr>memories := map (bumped_row idList amount now) (memories db')\<rparr>,
      (if 0 < changes then n + 1 else n) + length (filter (\<lambda>i. i \<in> stored_ids db') idList))"
    by (rule Cons.IH)
  also have "\<dots> = (db\<lparr>memories := map (bumped_row (i # idList) amount now) (memories db)\<rparr>,
      n + length (filter (\<lambda>i. i \<in> stored_ids db) (i # idList)))"
    unfolding rows ids using pos by (simp add: db')
  finally show ?case .
qed

lemma listed_rows_count:
  assumes "distinct ids" and "distinct (map mem_id ms)"
  shows "length (filter (\<lambda>i. i \<in> mem_id ` set ms) ids)
       = length (filter (\<lambda>m. mem_id m \<in> set ids) ms)"
proof -
  have "length (filter (\<lambda>i. i \<in> mem_id ` set ms) ids)
      = card ({i. i \<in> mem_id ` set ms} \<inter> set ids)"
    using assms(1) by (rule distinct_length_filter)
  moreover have "length (filter (\<lambda>i. i \<in> set ids) (map mem_id ms))
      = card ({i. i \<in> set ids} \<inter> set (map mem_id ms))"
    using assms(2) by (rule distinct_length_filter)
  moreover have "length (filter (\<lambda>m. mem_id m \<in> set ids) ms)
      = length (filter (\<lambda>i. i \<in> set ids) (map mem_id ms))"
    by (simp add: filter_map o_def)
  ultimately show ?thesis by (simp add: Int_commute)
qed

lemma count_list_distinct: "distinct xs \<Longrightarrow> x \<in> set xs \<Longrightarrow> count_list xs x = 1"
  by (induction xs) auto

lemma bumped_row_once:
  "distinct ids \<Longrightarrow> mem_id m \<in> set ids \<Longrightarrow>
   bumped_row ids amount now m =
     m\<lparr>activation := activation m + amount, retrieval_count := retrieval_count m + 1,
       last_retrieved := Some now\<rparr>"
  by (simp add: bumped_row_def count_list_distinct)

text \<open>
  Claim C5, as stated: for every list of ids, each listed id that has a row ends with its
  activation plus the amount and its retrieval count plus one, and the number returned is
  the number of rows that were affected. The loop runs the \<^verbatim>\<open>UPDATE\<close> once for each
  element of the list: with \<open>tts:a\<close> listed three times and \<open>tts:b\<close> once, amount 0.5, the
  row \<open>tts:a\<close> goes from activation 1 and count 0 to activation 2.5 and count 3, and the
  call returns 4 for the 2 rows it changed.
\<close>

theorem bumpActivations_repeated_id:
  "length (memories tts_store) = 2
   \<and> mem_id (memories tts_store ! 0) = ''tts:a''
   \<and> activation (memories tts_store ! 0) = 1
   \<and> retrieval_count (memories tts_store ! 0) = 0
   \<and> activation (memories (fst (bumpActivations tts_store
         [''tts:a'', ''tts:a'', ''tts:a'', ''tts:b''] 0.5 7)) ! 0) = 2.5
   \<and> retrieval_count (memories (fst (bumpActivations tts_store
         [''tts:a'', ''tts:a'', ''tts:a'', ''tts:b''] 0.5 7)) ! 0) = 3
   \<and> snd (bumpActivations tts_store [''tts:a'', ''tts:a'', ''tts:a'', ''tts:b''] 0.5 7) = 4"
proof -
  have run: "bumpActivations tts_store [''tts:a'', ''tts:a'', ''tts:a'', ''tts:b''] 0.5 7 =
      (tts_store\<lparr>memories :=
         map (bumped_row [''tts:a'', ''tts:a'', ''tts:a'', ''tts:b''] 0.5 7) (memories tts_store)\<rparr>,
       length (filter (\<lambda>i. i \<in> stored_ids tts_store) [''tts:a'', ''tts:a'', ''tts:a'', ''tts:b'']))"
    by (simp add: bumpActivations_def bumpTx_closed)
  show ?thesis
    unfolding run by (simp add: tts_store_def mk_row_def bumped_row_def stored_ids_def)
qed

text \<open>
  Claim C5, amended. For every list of ids and every amount, \<^verbatim>\<open>bumpActivations\<close> is a
  single transaction (one state transformer) that runs one update for each element of the
  list: it leaves the co-occurrence table and every row whose id is not listed as they are,
  and a row whose id is listed \<open>k\<close> times ends with its activation plus \<open>k\<close> times the amount,
  its retrieval count plus \<open>k\<close> and \<open>now\<close> as last retrieval (\<open>bumped_row\<close>); it returns the
  number of elements of the list whose id has a row, absent ids not counted. When no id is
  listed twice, each listed row has exactly activation plus the amount and retrieval count
  plus one, and the number returned is the number of rows that were changed.
\<close>

theorem bumpActivations_spec:
  "bumpActivations db ids amount now =
     (db\<lparr>memories := map (bumped_row ids amount now) (memories db)\<rparr>,
      length (filter (\<lambda>i. i \<in> stored_ids db) ids))
   \<and> (distinct ids \<longrightarrow>
        (\<forall>m \<in> set (memories db). mem_id m \<in> set ids \<longrightarrow>
           bumped_row ids amount now m =
             m\<lparr>activation := activation m + amount, retrieval_count := retrieval_count m + 1,
               last_retrieved := Some now\<rparr>))
   \<and> (distinct ids \<and> distinct (map mem_id (memories db)) \<longrightarrow>
        snd (bumpActivations db ids amount now)
          = length (filter (\<lambda>m. mem_id m \<in> set ids) (memories db)))"
proof -
  have closed: "bumpActivations db ids amount now =
     (db\<lparr>memories := map (bumped_row ids amount now) (memories db)\<rparr>,
      length (filter (\<lambda>i. i \<in> stored_ids db) ids))"
    by (simp add: bumpActivations_def bumpTx_closed)
  have once: "distinct ids \<longrightarrow>
        (\<forall>m \<in> set (memories db). mem_id m \<in> set ids \<longrightarrow>
           bumped_row ids amount now m =
             m\<lparr>activation := activation m + amount, retrieval_count := retrieval_count m + 1,
               last_retrieved := Some now\<rparr>)"
    using bumped_row_once by blast
  have rows: "distinct ids \<and> distinct (map mem_id (memories db)) \<longrightarrow>
        snd (bumpActivations db ids amount now)
          = length (filter (\<lambda>m. mem_id m \<in> set ids) (memories db))"
    using closed listed_rows_count[of ids "memories db"] by (simp add: stored_ids_def)
  from closed once rows show ?thesis by blast
qed

theorem bumpActivations_spec_witness:
  "distinct [''tts:a'', ''nope''] \<and> distinct (map mem_id (memories tts_store))
   \<and> snd (bumpActivations tts_store [''tts:a'', ''nope''] 0.5 7) = 1
   \<and> map (\<lambda>m. (activation m, retrieval_count m, last_retrieved m))
        (memories (fst (bumpActivations tts_store [''tts:a'', ''nope''] 0.5 7)))
      = [(1.5, 1, Some 7), (1, 0, None)]"
  using bumpActivations_spec[of tts_store "[''tts:a'', ''nope'']" "0.5" 7]
  by (simp add: tts_store_def mk_row_def bumped_row_def stored_ids_def)

section \<open>Co-occurrence symmetry\<close>

lemma weight_of_insertCoOcc:
  "weight_of (insertCoOcc rows a b w) x y =
     (if x = a \<and> y = b then Some (weight_or0 rows a b + w) else weight_of rows x y)"
  by (induction rows a b w rule: insertCoOcc.induct) (auto simp: weight_or0_def)

lemma keys_insertCoOcc:
  "set (map co_key (insertCoOcc rows a b w)) = insert (a, b) (set (map co_key rows))"
  by (induction rows a b w rule: insertCoOcc.induct) (auto simp: co_key_def)

lemma keys_distinct_insertCoOcc:
  "keys_distinct rows \<Longrightarrow> keys_distinct (insertCoOcc rows a b w)"
proof (induction rows a b w rule: insertCoOcc.induct)
  case (1 a b w)
  then show ?case by (simp add: keys_distinct_def)
next
  case (2 a' b' w' rows a b w)
  show ?case
  proof (cases "a' = a \<and> b' = b")
    case True
    then show ?thesis using "2.prems" by (simp add: keys_distinct_def co_key_def)
  next
    case False
    have d: "keys_distinct rows" and fresh: "(a', b') \<notin> set (map co_key rows)"
      using "2.prems" by (simp_all add: keys_distinct_def co_key_def)
    have "keys_distinct (insertCoOcc rows a b w)" using "2.IH" False d by simp
    moreover have "(a', b') \<notin> set (map co_key (insertCoOcc rows a b w))"
      unfolding keys_insertCoOcc using fresh False by auto
    ultimately show ?thesis using False by (auto simp: keys_distinct_def co_key_def)
  qed
qed

lemma weight_of_wire_pair_fwd:
  "a \<noteq> b \<Longrightarrow> weight_of (wire_pair (a, b) rows) a b = Some (weight_or0 rows a b + 1)"
  by (simp add: wire_pair_def weight_of_insertCoOcc)

lemma weight_of_wire_pair_bwd:
  "a \<noteq> b \<Longrightarrow> weight_of (wire_pair (a, b) rows) b a = Some (weight_or0 rows b a + 1)"
  by (simp add: wire_pair_def weight_of_insertCoOcc weight_or0_def)

lemma weight_of_wire_pair_other:
  assumes 1: "\<not> (x = a \<and> y = b)" and 2: "\<not> (x = b \<and> y = a)"
  shows "weight_of (wire_pair (a, b) rows) x y = weight_of rows x y"
proof -
  have "weight_of (wire_pair (a, b) rows) x y
      = weight_of (insertCoOcc (insertCoOcc rows a b 1) b a 1) x y"
    by (simp only: wire_pair_def fst_conv snd_conv)
  also have "\<dots> = weight_of (insertCoOcc rows a b 1) x y"
    unfolding weight_of_insertCoOcc[of "insertCoOcc rows a b 1"] using 2 by (rule if_not_P)
  also have "\<dots> = weight_of rows x y"
    unfolding weight_of_insertCoOcc[of rows] using 1 by (rule if_not_P)
  finally show ?thesis .
qed

lemma symmetric_wire_pair:
  assumes "symmetric rows"
  shows "symmetric (wire_pair p rows)"
proof -
  obtain a b where p: "p = (a, b)" by (cases p)
  have sym: "weight_of rows u v = weight_of rows v u" for u v
    using assms by (simp add: symmetric_def)
  have sym0: "weight_or0 rows b a = weight_or0 rows a b"
    unfolding weight_or0_def sym[of b a] ..
  have "weight_of (wire_pair (a, b) rows) x y = weight_of (wire_pair (a, b) rows) y x" for x y
  proof (cases "x = y")
    case True
    then show ?thesis by simp
  next
    case ne: False
    consider (ab) "x = a \<and> y = b" | (ba) "x = b \<and> y = a"
      | (other) "\<not> (x = a \<and> y = b) \<and> \<not> (x = b \<and> y = a)" by blast
    then show ?thesis
    proof cases
      case ab
      then have n: "a \<noteq> b" and x: "x = a" and y: "y = b" using ne by simp_all
      show ?thesis
        unfolding x y weight_of_wire_pair_fwd[OF n] weight_of_wire_pair_bwd[OF n] sym0 ..
    next
      case ba
      then have n: "a \<noteq> b" and x: "x = b" and y: "y = a" using ne by auto
      show ?thesis
        unfolding x y weight_of_wire_pair_fwd[OF n] weight_of_wire_pair_bwd[OF n] sym0 ..
    next
      case other
      then have o1: "\<not> (x = a \<and> y = b)" and o2: "\<not> (x = b \<and> y = a)"
        and o3: "\<not> (y = a \<and> x = b)" and o4: "\<not> (y = b \<and> x = a)" by blast+
      show ?thesis
        unfolding weight_of_wire_pair_other[OF o1 o2] weight_of_wire_pair_other[OF o3 o4]
        by (rule sym)
    qed
  qed
  then show ?thesis by (simp add: symmetric_def p)
qed

lemma keys_distinct_wire_pair: "keys_distinct rows \<Longrightarrow> keys_distinct (wire_pair p rows)"
  unfolding wire_pair_def by (intro keys_distinct_insertCoOcc)

lemma fold_wire_pair_inv:
  "symmetric rows \<and> keys_distinct rows \<Longrightarrow>
   symmetric (fold wire_pair ps rows) \<and> keys_distinct (fold wire_pair ps rows)"
  by (induction ps arbitrary: rows) (simp_all add: symmetric_wire_pair keys_distinct_wire_pair)

lemma wire_group_inv:
  "symmetric rows \<and> keys_distinct rows \<Longrightarrow>
   symmetric (wire_group g rows) \<and> keys_distinct (wire_group g rows)"
  unfolding wire_group_def using fold_wire_pair_inv[of rows "pairs (snd g)"] by simp

lemma fold_wire_group_inv:
  "symmetric rows \<and> keys_distinct rows \<Longrightarrow>
   symmetric (fold wire_group gs rows) \<and> keys_distinct (fold wire_group gs rows)"
proof (induction gs arbitrary: rows)
  case Nil then show ?case by simp
next
  case (Cons g gs)
  from wire_group_inv[OF Cons.prems] show ?case
    by (simp add: Cons.IH)
qed

lemma wired_inv: "wired g \<Longrightarrow> symmetric g \<and> keys_distinct g"
proof (induction rule: wired.induct)
  case wired_empty
  show ?case by (simp add: symmetric_def keys_distinct_def)
next
  case (wired_step g ms ids db')
  obtain byDomain where "db' = \<lparr>memories = ms, co_occurrences = fold wire_group byDomain g\<rparr>"
    using wired_step.hyps(2) by (auto simp: wireCoOccurrences_def split: sum.splits)
  then show ?case
    using fold_wire_group_inv[OF wired_step.IH, of byDomain] by simp
qed

lemma weight_of_Some_mem: "weight_of rows a b = Some w \<Longrightarrow> (a, b, w) \<in> set rows"
  by (induction rows) (auto split: if_splits)

lemma mem_weight_of:
  "keys_distinct rows \<Longrightarrow> (a, b, w) \<in> set rows \<Longrightarrow> weight_of rows a b = Some w"
proof (induction rows)
  case Nil
  then show ?case by simp
next
  case (Cons r rows)
  obtain a' b' w' where r: "r = (a', b', w')" by (cases r)
  have d: "keys_distinct rows" and fresh: "(a', b') \<notin> co_key ` set rows"
    using Cons.prems(1) by (simp_all add: keys_distinct_def r co_key_def)
  show ?case
  proof (cases "(a, b, w) = r")
    case True
    then show ?thesis by (simp add: r)
  next
    case False
    then have m: "(a, b, w) \<in> set rows" using Cons.prems(2) by simp
    then have "co_key (a, b, w) \<in> co_key ` set rows" by (rule imageI)
    then have "(a, b) \<in> co_key ` set rows" by (simp add: co_key_def)
    with fresh have "\<not> (a' = a \<and> b' = b)" by auto
    then show ?thesis using Cons.IH[OF d m] by (auto simp: r)
  qed
qed

lemma wire_tts_store:
  "wireCoOccurrences (tts_store\<lparr>co_occurrences := []\<rparr>) [''tts:a'', ''tts:b''] = Inr tts_store"
  by (simp add: wireCoOccurrences_def tts_store_def mk_row_def getMemory_def or_else_def
      object_prototype_keys_def wire_group_def wire_pair_def)

text \<open>
  Claim C6. In every co-occurrence table that calls of \<^verbatim>\<open>wireCoOccurrences\<close> produce from
  the empty table, every edge \<open>(a, b)\<close> of weight \<open>w\<close> has its reverse edge \<open>(b, a)\<close> with the
  same weight \<open>w\<close>: each call writes both directions of a pair in its one transaction, and
  a call that throws writes nothing.
\<close>

theorem wired_symmetric:
  "wired g \<Longrightarrow> (a, b, w) \<in> set g \<Longrightarrow> (b, a, w) \<in> set g"
proof -
  assume g: "wired g" and m: "(a, b, w) \<in> set g"
  from wired_inv[OF g] have s: "symmetric g" and d: "keys_distinct g" by simp_all
  from mem_weight_of[OF d m] have "weight_of g a b = Some w" .
  with s have "weight_of g b a = Some w" by (simp add: symmetric_def)
  then show "(b, a, w) \<in> set g" by (rule weight_of_Some_mem)
qed

theorem wired_symmetric_witness:
  "wired (co_occurrences tts_store)
   \<and> (''tts:a'', ''tts:b'', 1) \<in> set (co_occurrences tts_store)
   \<and> (''tts:b'', ''tts:a'', 1) \<in> set (co_occurrences tts_store)"
proof -
  have w: "wired (co_occurrences tts_store)"
    using wired_step[OF wired_empty, of "memories tts_store" "[''tts:a'', ''tts:b'']" tts_store]
      wire_tts_store by (simp add: tts_store_def)
  have m: "(''tts:a'', ''tts:b'', 1) \<in> set (co_occurrences tts_store)"
    by (simp add: tts_store_def)
  from w m wired_symmetric[OF w m] show ?thesis by simp
qed

section \<open>Retrieval\<close>

subsection \<open>The loops\<close>

lemma total_chars_simps [simp]:
  "total_chars [] = 0"
  "total_chars (rs @ [r]) = total_chars rs + entryChars (entry r)"
  "total_chars [r] = entryChars (entry r)"
  by (simp_all add: total_chars_def)

lemma score_entry_Some:
  assumes "score_entry opts now mx e = Inr (Some r)"
  shows "entry r = e \<and> \<not> spreadingActivation r \<and> spreadBoost r = None
     \<and> (\<exists>sim. semanticSim r = Some sim
          \<and> (queryEmbedding opts \<noteq> None \<longrightarrow>
               0.3 \<le> sim
               \<and> (\<exists>emb. blobToEmbedding (embedding e) = Inr (Some emb)
                      \<and> sim = cosineSimilarity (queryEmbedding opts) (Some emb))))"
proof (cases "queryEmbedding opts \<noteq> None \<and> embedding e \<noteq> None")
  case True
  then obtain emb where emb: "blobToEmbedding (embedding e) = Inr emb"
    using assms by (auto simp: score_entry_def split: sum.splits)
  from True have "emb \<noteq> None"
    using emb by (auto simp: blobToEmbedding_def split: option.splits sum.splits)
  then obtain v where v: "emb = Some v" by auto
  show ?thesis
    using assms True emb v by (auto simp: score_entry_def split: if_splits)
next
  case False
  then show ?thesis
    using assms by (auto simp: score_entry_def split: if_splits)
qed

lemma score_loop_sound:
  "score_loop opts now mx es = Inr scored \<Longrightarrow> r \<in> set scored \<Longrightarrow>
   entry r \<in> set es \<and> score_entry opts now mx (entry r) = Inr (Some r)"
proof (induction es arbitrary: scored)
  case Nil
  then show ?case by simp
next
  case (Cons e es)
  from Cons.prems(1) obtain x rest where
    x: "score_entry opts now mx e = Inr x" and rest: "score_loop opts now mx es = Inr rest"
    and sc: "scored = (case x of None \<Rightarrow> rest | Some y \<Rightarrow> y # rest)"
    by (auto split: sum.splits)
  show ?case
  proof (cases "r \<in> set rest")
    case True
    from Cons.IH[OF rest True] show ?thesis by simp
  next
    case False
    with Cons.prems(2) sc have xr: "x = Some r" by (cases x) auto
    with x score_entry_Some[of opts now mx e r] show ?thesis by simp
  qed
qed

lemma select_loop_step:
  "select_loop cb lim' (r # scored) sel cu seen =
     (if int (cu + entryChars (entry r)) > cb \<and> sel \<noteq> [] then (sel, cu)
      else if 3 \<le> (case seen (or_else (domain (entry r)) ''general'') of None \<Rightarrow> 0 | Some c \<Rightarrow> c)
      then select_loop cb lim' scored sel cu seen
      else if lim' \<le> int (length sel) + 1 then (sel @ [r], cu + entryChars (entry r))
      else select_loop cb lim' scored (sel @ [r]) (cu + entryChars (entry r))
             (seen(or_else (domain (entry r)) ''general'' \<mapsto>
                (case seen (or_else (domain (entry r)) ''general'') of None \<Rightarrow> 0 | Some c \<Rightarrow> c) + 1)))"
  by (simp add: Let_def)

lemma select_loop_shape:
  "select_loop cb lim' scored sel cu seen = (sel', cu') \<Longrightarrow>
   \<exists>picked. sel' = sel @ picked \<and> set picked \<subseteq> set scored"
proof (induction scored arbitrary: sel cu seen)
  case Nil
  then show ?case by simp
next
  case (Cons r scored)
  have app: "\<exists>picked. sel' = sel @ picked \<and> set picked \<subseteq> set (r # scored)"
    if "\<exists>picked. sel' = (sel @ [r]) @ picked \<and> set picked \<subseteq> set scored"
  proof -
    from that obtain picked where "sel' = (sel @ [r]) @ picked" "set picked \<subseteq> set scored" by blast
    then have "sel' = sel @ (r # picked) \<and> set (r # picked) \<subseteq> set (r # scored)" by auto
    then show ?thesis by blast
  qed
  from Cons.prems show ?case
    unfolding select_loop_step
    by (auto split: if_splits dest!: Cons.IH intro!: app)
qed

lemma select_loop_budget:
  "select_loop cb lim' scored sel cu seen = (sel', cu') \<Longrightarrow>
   cu = total_chars sel \<Longrightarrow> sel = [] \<or> int cu \<le> cb \<or> length sel = 1 \<Longrightarrow>
   cu' = total_chars sel' \<and> (sel' = [] \<or> int cu' \<le> cb \<or> length sel' = 1)"
proof (induction scored arbitrary: sel cu seen)
  case Nil
  then show ?case by auto
next
  case (Cons r scored)
  from Cons.prems show ?case
    unfolding select_loop_step
    by (auto split: if_splits dest!: Cons.IH)
qed

lemma select_loop_length:
  "select_loop cb lim' scored sel cu seen = (sel', cu') \<Longrightarrow>
   int (length sel) < lim' \<Longrightarrow> int (length sel') \<le> lim'"
proof (induction scored arbitrary: sel cu seen)
  case Nil
  then show ?case by auto
next
  case (Cons r scored)
  from Cons.prems show ?case
    unfolding select_loop_step
    by (auto split: if_splits dest!: Cons.IH)
qed

lemma fill_loop_shape:
  "\<exists>spread. fill_loop cb related sel cu = sel @ spread
     \<and> length spread \<le> length related
     \<and> (\<forall>r \<in> set spread. spreadingActivation r \<and> entry r \<in> fst ` set related)"
proof (induction related arbitrary: sel cu)
  case Nil
  show ?case by simp
next
  case (Cons p related)
  obtain rel boost where p: "p = (rel, boost)" by (cases p)
  let ?x = "\<lparr>entry = rel, score = boost * 0.01, semanticSim = None,
             spreadBoost = Some boost, spreadingActivation = True\<rparr>"
  show ?case
  proof (cases "int (cu + entryChars rel) > cb")
    case True
    then show ?thesis by (simp add: p)
  next
    case False
    from Cons.IH[of "sel @ [?x]" "cu + entryChars rel"] obtain spread where
      sp: "fill_loop cb related (sel @ [?x]) (cu + entryChars rel) = (sel @ [?x]) @ spread"
      "length spread \<le> length related"
      "\<forall>r \<in> set spread. spreadingActivation r \<and> entry r \<in> fst ` set related"
      by blast
    have "fill_loop cb (p # related) sel cu = sel @ (?x # spread)"
      using False sp(1) by (simp add: p)
    moreover have "length (?x # spread) \<le> length (p # related)" using sp(2) by simp
    moreover have "\<forall>r \<in> set (?x # spread). spreadingActivation r \<and> entry r \<in> fst ` set (p # related)"
      using sp(3) by (auto simp: p)
    ultimately show ?thesis by blast
  qed
qed

lemma fill_loop_budget:
  "cu = total_chars sel \<Longrightarrow> int cu \<le> cb \<Longrightarrow> int (total_chars (fill_loop cb related sel cu)) \<le> cb"
proof (induction related arbitrary: sel cu)
  case Nil
  then show ?case by simp
next
  case (Cons p related)
  obtain rel boost where p: "p = (rel, boost)" by (cases p)
  show ?case
  proof (cases "int (cu + entryChars rel) > cb")
    case True
    then show ?thesis using Cons.prems by (simp add: p)
  next
    case False
    then show ?thesis
      using Cons.prems Cons.IH[of "cu + entryChars rel"
          "sel @ [\<lparr>entry = rel, score = boost * 0.01, semanticSim = None,
             spreadBoost = Some boost, spreadingActivation = True\<rparr>]"]
      by (simp add: p)
  qed
qed

lemma length_with_rows: "length (with_rows db bs) \<le> length bs"
  by (induction db bs rule: with_rows.induct) (auto split: option.splits)

lemma length_getSpreadingActivation: "length (getSpreadingActivation db ids k) \<le> k"
  unfolding getSpreadingActivation_def
  using length_with_rows[of db "take k (sort_key (\<lambda>(i, boost). - boost) (spread_boosts db ids))"]
  by simp

lemma spread_gate:
  "real cu < real_of_int cb * 0.9 \<Longrightarrow> int cu \<le> cb"
proof -
  assume a: "real cu < real_of_int cb * 0.9"
  have "0 \<le> real cu" by simp
  with a have "0 < real_of_int cb" by (simp add: zero_less_mult_iff)
  then have "real_of_int cb * 0.9 \<le> real_of_int cb" by simp
  with a have "real cu < real_of_int cb" by linarith
  then show ?thesis by linarith
qed

lemma retrieve_cases:
  assumes "retrieve now db opts = Inr res"
  obtains (empty) "candidates db opts = []" "res = []"
  | (ranked) scored selected cu where
      "score_loop opts now (maxActivation_of (candidates db opts)) (candidates db opts) = Inr scored"
      "select_loop (tokenBudget opts * 4) (limit opts) (sort_key (\<lambda>r. - score r) scored) [] 0 Map.empty
         = (selected, cu)"
      "res = spread_fill db (tokenBudget opts * 4) selected cu"
proof (cases "candidates db opts = []")
  case True
  then have "res = []" using assms by (simp add: retrieve_def)
  with True show ?thesis by (rule empty)
next
  case False
  show ?thesis
  proof (cases "score_loop opts now (maxActivation_of (candidates db opts)) (candidates db opts)")
    case (Inl err)
    then have "retrieve now db opts = Inl err" using False by (simp add: retrieve_def Let_def)
    with assms show ?thesis by simp
  next
    case (Inr scored)
    obtain selected cu where
      sl: "select_loop (tokenBudget opts * 4) (limit opts) (sort_key (\<lambda>r. - score r) scored) [] 0 Map.empty
         = (selected, cu)"
      by (cases "select_loop (tokenBudget opts * 4) (limit opts) (sort_key (\<lambda>r. - score r) scored) [] 0 Map.empty")
    have "retrieve now db opts = Inr (spread_fill db (tokenBudget opts * 4) selected cu)"
      using False Inr sl by (simp add: retrieve_def Let_def)
    with assms have "res = spread_fill db (tokenBudget opts * 4) selected cu" by simp
    with Inr sl show ?thesis by (rule ranked)
  qed
qed


lemma spread_fill_shape:
  "\<exists>spread. spread_fill db cb sel cu = sel @ spread \<and> length spread \<le> 8
      \<and> (\<forall>r \<in> set spread. spreadingActivation r)"
proof (cases "real cu < real_of_int cb * 0.9 \<and> length sel > 0")
  case True
  let ?rel = "getSpreadingActivation db (map (\<lambda>s. mem_id (entry s)) sel) 8"
  from fill_loop_shape[of cb ?rel sel cu] obtain spread where
    "fill_loop cb ?rel sel cu = sel @ spread" "length spread \<le> length ?rel"
    "\<forall>r \<in> set spread. spreadingActivation r" by blast
  moreover have "length ?rel \<le> 8" by (rule length_getSpreadingActivation)
  ultimately have "spread_fill db cb sel cu = sel @ spread \<and> length spread \<le> 8
      \<and> (\<forall>r \<in> set spread. spreadingActivation r)"
    using True by (simp add: spread_fill_def)
  then show ?thesis by blast
next
  case False
  then have "spread_fill db cb sel cu = sel @ []" by (auto simp: spread_fill_def)
  then show ?thesis by (intro exI[of _ "[]"]) simp
qed

lemma retrieve_decomp:
  assumes "retrieve now db opts = Inr res"
  shows "\<exists>selected spread. res = selected @ spread
     \<and> (\<forall>r \<in> set selected. entry r \<in> set (candidates db opts)
            \<and> score_entry opts now (maxActivation_of (candidates db opts)) (entry r) = Inr (Some r))
     \<and> (\<forall>r \<in> set spread. spreadingActivation r)
     \<and> length spread \<le> 8
     \<and> (1 \<le> limit opts \<longrightarrow> int (length selected) \<le> limit opts)"
  using assms
proof (cases rule: retrieve_cases)
  case empty
  then show ?thesis by simp
next
  case (ranked scored selected cu)
  let ?ranked = "sort_key (\<lambda>r. - score r) scored"
  from select_loop_shape[OF ranked(2)] have sub: "set selected \<subseteq> set scored" by auto
  have sel: "\<forall>r \<in> set selected. entry r \<in> set (candidates db opts)
            \<and> score_entry opts now (maxActivation_of (candidates db opts)) (entry r) = Inr (Some r)"
    using sub score_loop_sound[OF ranked(1)] by blast
  have len: "1 \<le> limit opts \<longrightarrow> int (length selected) \<le> limit opts"
    using select_loop_length[OF ranked(2)] by simp
  from spread_fill_shape[of db "tokenBudget opts * 4" selected cu] obtain spread where
    "spread_fill db (tokenBudget opts * 4) selected cu = selected @ spread" "length spread \<le> 8"
    "\<forall>r \<in> set spread. spreadingActivation r" by blast
  with sel len ranked(3) show ?thesis by blast
qed

lemma retrieve_ranked_item:
  assumes "retrieve now db opts = Inr res" and "r \<in> set res" and "\<not> spreadingActivation r"
  shows "entry r \<in> set (candidates db opts)
     \<and> score_entry opts now (maxActivation_of (candidates db opts)) (entry r) = Inr (Some r)"
  using retrieve_decomp[OF assms(1)] assms(2,3) by auto

lemma candidates_active: "m \<in> set (candidates db opts) \<Longrightarrow> is_active m"
  by (auto simp: candidates_def domain_candidates_def domainQuery_def order_by_activation_desc_def
      dest: in_set_takeD split: if_splits)

lemma retrieve_ranked_active:
  assumes "retrieve now db opts = Inr res" and "r \<in> set res" and "\<not> spreadingActivation r"
  shows "status (entry r) \<noteq> Some ''deprecated''"
  using retrieve_ranked_item[OF assms] candidates_active[of "entry r" db opts]
  by (auto simp: is_active_def)

subsection \<open>Concrete runs\<close>

lemma float32_elements_0: "float32_elements bs 0 = []"
  by (simp add: float32_elements_def)

lemma float32_elements_Suc:
  "float32_elements bs (Suc n) = float32_elements bs n @ [float32_le (take 4 (drop (4 * n) bs))]"
  by (simp add: float32_elements_def)

lemma float32_elements_numeral:
  "float32_elements bs (numeral k) =
     float32_elements bs (pred_numeral k) @ [float32_le (take 4 (drop (4 * pred_numeral k) bs))]"
  by (simp add: float32_elements_def numeral_eq_Suc)

lemmas blob_defs = blobToEmbedding_def new_Float32Array_def ToIndex_def byteLength_def
  float32_elements_0 float32_elements_Suc float32_elements_numeral float32_le_def

lemmas retrieve_defs =
  retrieve_def candidates_def is_active_def order_by_activation_desc_def
  domain_candidates_def domainQuery_def maxActivation_of_def p95_of_def normAct_def
  score_entry_def type_bonus_def penalties_def recency_bonus_def domain_bonus_def
  entryChars_def or_else_def truthy_def toLowerCase_def lower_char_def upper_chars_def lower_chars_def
  spread_fill_def getSpreadingActivation_def spread_boosts_def getCoOccurrences_def
  getMemory_def default_options_def cosineSimilarity_def

lemma retrieve_tts_store: "retrieve 0 tts_store default_options = Inr tts_result"
  by (simp add: tts_store_def tts_result_def mk_row_def retrieve_defs)

lemma retrieve_tts_store_limit1:
  "retrieve 0 tts_store (default_options\<lparr>limit := 1\<rparr>) = Inr tts_result"
  by (simp add: tts_store_def tts_result_def mk_row_def retrieve_defs)

lemma retrieve_tts_store_budget1:
  "retrieve 0 tts_store (default_options\<lparr>tokenBudget := 1\<rparr>) = Inr (take 1 tts_result)"
  by (simp add: tts_store_def tts_result_def mk_row_def retrieve_defs)

lemma blob_vec_10: "blobToEmbedding (Some vec_10) = Inr (Some [1, 0])"
  by (simp add: vec_10_def blob_defs)



subsection \<open>Deprecated entries\<close>

text \<open>
  Claim C1. The claim wants no deprecated memory anywhere in the returned list, the items of
  the fill pass included. The three candidate queries filter on the status, so no ranked
  item is deprecated (\<open>retrieve_ranked_active\<close>). The fill pass reads its neighbours with
  \<^verbatim>\<open>getMemory\<close>, which has no status filter: on the store \<open>tts_store\<close> the second item
  returned is the deprecated neighbour of the first.
\<close>

theorem retrieve_returns_deprecated:
  "retrieve 0 tts_store default_options = Inr tts_result
   \<and> status (entry (tts_result ! 1)) = Some ''deprecated''
   \<and> spreadingActivation (tts_result ! 1)"
  using retrieve_tts_store by (simp add: tts_result_def mk_row_def)

subsection \<open>The entry cap\<close>

text \<open>
  Claim C2, as stated: the returned list, fill items included, is never longer than
  \<^verbatim>\<open>limit\<close>. With \<^verbatim>\<open>limit = 1\<close> the list returned has two items: the fill pass
  appends after the cap was reached.
\<close>

theorem retrieve_exceeds_limit:
  "retrieve 0 tts_store (default_options\<lparr>limit := 1\<rparr>) = Inr tts_result
   \<and> limit (default_options\<lparr>limit := 1\<rparr>) = 1
   \<and> length tts_result = 2"
  using retrieve_tts_store_limit1 by (simp add: tts_result_def)

text \<open>
  Claim C2, amended. For a cap of at least one, the items chosen by the budgeted selection
  (those not marked \<^verbatim>\<open>spreadingActivation\<close>) are at most \<^verbatim>\<open>limit\<close>; the fill pass
  appends at most 8 further items, whatever the cap; so the list has at most
  \<^verbatim>\<open>limit + 8\<close> items.
\<close>

theorem retrieve_length_bound:
  assumes "retrieve now db opts = Inr res" and "1 \<le> limit opts"
  shows "length (filter (\<lambda>r. \<not> spreadingActivation r) res) \<le> nat (limit opts)
     \<and> length (filter spreadingActivation res) \<le> 8
     \<and> length res \<le> nat (limit opts) + 8"
proof -
  from retrieve_decomp[OF assms(1)] obtain selected spread where
    res: "res = selected @ spread"
    and sel: "\<forall>r \<in> set selected. score_entry opts now (maxActivation_of (candidates db opts)) (entry r) = Inr (Some r)"
    and sp: "\<forall>r \<in> set spread. spreadingActivation r"
    and l8: "length spread \<le> 8"
    and ll: "int (length selected) \<le> limit opts"
    using assms(2) by blast
  have ns: "\<forall>r \<in> set selected. \<not> spreadingActivation r"
    using sel score_entry_Some by blast
  have f1: "filter (\<lambda>r. \<not> spreadingActivation r) res = selected"
    using ns sp by (simp add: res filter_id_conv filter_empty_conv)
  have f2: "filter spreadingActivation res = spread"
    using ns sp by (simp add: res filter_id_conv filter_empty_conv)
  from ll have "length selected \<le> nat (limit opts)" by linarith
  then show ?thesis using l8 by (simp add: f1 f2) (simp add: res)
qed

theorem retrieve_length_bound_witness:
  "retrieve 0 tts_store (default_options\<lparr>limit := 1\<rparr>) = Inr tts_result
   \<and> 1 \<le> limit (default_options\<lparr>limit := 1\<rparr>)
   \<and> length (filter (\<lambda>r. \<not> spreadingActivation r) tts_result) \<le> 1
   \<and> length (filter spreadingActivation tts_result) \<le> 8
   \<and> length tts_result \<le> 1 + 8"
proof -
  have l: "1 \<le> limit (default_options\<lparr>limit := 1\<rparr>)" by simp
  from retrieve_length_bound[OF retrieve_tts_store_limit1 l] retrieve_tts_store_limit1 l
  show ?thesis by simp
qed

subsection \<open>The character budget\<close>

text \<open>
  Claim C3. For every call of \<^verbatim>\<open>retrieve\<close> with a token budget \<open>T \<ge> 0\<close> that returns a
  list, the characters charged for the list, \<^verbatim>\<open>(detail || title || "").length + 20\<close> for
  each item, fill items included, are at most \<open>4 T\<close>, unless the list is the first ranked
  item alone and that item is charged more than \<open>4 T\<close>.
\<close>

theorem retrieve_within_budget:
  assumes "retrieve now db opts = Inr res" and "0 \<le> tokenBudget opts"
  shows "int (total_chars res) \<le> tokenBudget opts * 4
     \<or> (\<exists>r. res = [r] \<and> int (entryChars (entry r)) > tokenBudget opts * 4)"
  using assms(1)
proof (cases rule: retrieve_cases)
  case empty
  then show ?thesis using assms(2) by simp
next
  case (ranked scored selected cu)
  let ?cb = "tokenBudget opts * 4"
  have "cu = total_chars selected \<and> (selected = [] \<or> int cu \<le> ?cb \<or> length selected = 1)"
    by (rule select_loop_budget[OF ranked(2)]) simp_all
  then have cu: "cu = total_chars selected"
    and inv: "selected = [] \<or> int cu \<le> ?cb \<or> length selected = 1" by blast+
  show ?thesis
  proof (cases "real cu < real_of_int ?cb * 0.9 \<and> length selected > 0")
    case True
    then have "int cu \<le> ?cb" using spread_gate[of cu ?cb] by simp
    from fill_loop_budget[OF cu this] show ?thesis
      using True ranked(3) by (simp add: spread_fill_def)
  next
    case False
    then have res: "res = selected" using ranked(3) by (auto simp: spread_fill_def)
    from inv show ?thesis
    proof (elim disjE)
      assume "selected = []"
      then show ?thesis using res assms(2) by simp
    next
      assume "int cu \<le> ?cb"
      then show ?thesis using res cu by simp
    next
      assume "length selected = 1"
      then obtain r where r: "selected = [r]" by (cases selected) auto
      then show ?thesis using res by (cases "int (entryChars (entry r)) > ?cb") auto
    qed
  qed
qed

theorem retrieve_within_budget_witness:
  "retrieve 0 tts_store default_options = Inr tts_result
   \<and> 0 \<le> tokenBudget default_options
   \<and> int (total_chars tts_result) \<le> tokenBudget default_options * 4
   \<and> retrieve 0 tts_store (default_options\<lparr>tokenBudget := 1\<rparr>) = Inr (take 1 tts_result)
   \<and> 0 \<le> tokenBudget (default_options\<lparr>tokenBudget := 1\<rparr>)
   \<and> (\<exists>r. take 1 tts_result = [r]
         \<and> int (entryChars (entry r)) > tokenBudget (default_options\<lparr>tokenBudget := 1\<rparr>) * 4)"
proof -
  have b: "0 \<le> tokenBudget default_options" by (simp add: default_options_def)
  from retrieve_within_budget[OF retrieve_tts_store b]
  have 1: "int (total_chars tts_result) \<le> tokenBudget default_options * 4"
    by (simp add: tts_result_def)
  have b1: "0 \<le> tokenBudget (default_options\<lparr>tokenBudget := 1\<rparr>)" by simp
  have "\<not> int (total_chars (take 1 tts_result)) \<le> tokenBudget (default_options\<lparr>tokenBudget := 1\<rparr>) * 4"
    by (simp add: tts_result_def total_chars_def entryChars_def mk_row_def or_else_def)
  with retrieve_within_budget[OF retrieve_tts_store_budget1 b1]
  have 2: "\<exists>r. take 1 tts_result = [r]
         \<and> int (entryChars (entry r)) > tokenBudget (default_options\<lparr>tokenBudget := 1\<rparr>) * 4"
    by blast
  from 1 2 retrieve_tts_store retrieve_tts_store_budget1 b show ?thesis by simp
qed

subsection \<open>The semantic floor\<close>




subsection \<open>Normalised activation\<close>

lemma maxActivation_ge_1: "1 \<le> maxActivation_of cands"
  by (simp add: maxActivation_of_def)

lemma normAct_le_1: "normAct e maxActivation \<le> 1"
  by (simp add: normAct_def)

lemma normAct_nonneg: "0 \<le> activation e \<Longrightarrow> 0 \<le> normAct e (maxActivation_of cands)"
  using maxActivation_ge_1[of cands] by (simp add: normAct_def)

text \<open>
  Claim C7. The divisor is \<open>max p95 1\<close> and the quotient is capped at 1
  (\<open>maxActivation_ge_1\<close>, \<open>normAct_le_1\<close>), and a non-negative activation gives a
  non-negative value (\<open>normAct_nonneg\<close>). The claim also wants the value clipped at 0 for
  negative activations, as the comment \<^verbatim>\<open>normalized 0-1\<close> in the code says; the code
  applies \<^verbatim>\<open>Math.min\<close> only. For a candidate of activation \<open>- 2\<close>, alone in the store,
  the normalised activation is \<open>- 2\<close>, and it enters the score: \<open>- 2 \<cdot> 0.3 + 0.08\<close>.
\<close>

theorem normAct_negative:
  "candidates neg_store default_options = [neg_row]
   \<and> maxActivation_of [neg_row] = 1
   \<and> normAct neg_row (maxActivation_of [neg_row]) = - 2
   \<and> retrieve 0 neg_store default_options =
       Inr [\<lparr>entry = neg_row, score = - 0.52, semanticSim = Some 0, spreadBoost = None,
              spreadingActivation = False\<rparr>]"
proof -
  have c: "candidates neg_store default_options = [neg_row]"
    by (simp add: neg_store_def neg_row_def mk_row_def candidates_def default_options_def
        is_active_def order_by_activation_desc_def)
  have m: "maxActivation_of [neg_row] = 1"
    by (simp add: maxActivation_of_def p95_of_def neg_row_def mk_row_def)
  have n: "normAct neg_row (maxActivation_of [neg_row]) = - 2"
    unfolding m by (simp add: normAct_def neg_row_def mk_row_def)
  have r: "retrieve 0 neg_store default_options =
       Inr [\<lparr>entry = neg_row, score = - 0.52, semanticSim = Some 0, spreadBoost = None,
              spreadingActivation = False\<rparr>]"
    by (simp add: neg_store_def neg_row_def mk_row_def retrieve_defs)
  from c m n r show ?thesis by simp
qed

subsection \<open>Candidate selection without stored embeddings\<close>

lemma score_entry_no_query:
  "queryEmbedding opts = None \<Longrightarrow> \<exists>r. score_entry opts now mx e = Inr (Some r) \<and> entry r = e"
  by (simp add: score_entry_def)

lemma score_loop_no_query:
  "queryEmbedding opts = None \<Longrightarrow>
   \<exists>scored. score_loop opts now mx es = Inr scored \<and> map entry scored = es"
proof (induction es)
  case Nil
  show ?case by simp
next
  case (Cons e es)
  from score_entry_no_query[OF Cons.prems, of now mx e] obtain r where
    "score_entry opts now mx e = Inr (Some r)" "entry r = e" by blast
  moreover from Cons.IH[OF Cons.prems] obtain scored where
    "score_loop opts now mx es = Inr scored" "map entry scored = es" by blast
  ultimately show ?case by simp
qed

lemma set_domain_candidates:
  "set (domain_candidates db ds) =
     {m \<in> set (memories db). is_active m \<and> (\<exists>d \<in> set ds. domain m = Some d)}"
  by (auto simp: domain_candidates_def domainQuery_def order_by_activation_desc_def)

lemma sorted_domainQuery: "sorted (map (\<lambda>m. - activation m) (domainQuery db d))"
  by (simp add: domainQuery_def order_by_activation_desc_def)

lemma retrieve_no_stored_embedding:
  assumes "\<forall>m \<in> set (memories db). embedding m = None" and "queryEmbedding opts \<noteq> None"
  shows "candidates db opts = [] \<and> retrieve now db opts = Inr []"
proof -
  have "candidates db opts = []"
    using assms by (simp add: candidates_def filter_empty_conv)
  then show ?thesis by (simp add: retrieve_def)
qed

text \<open>
  Claim C8, as stated: in a store without stored embeddings, hints given, the domain-hint
  path is used and the floor excludes nothing, also when a query embedding was obtained.
  On \<open>tts_store\<close>, which has no embedding, with the hint \<open>tts\<close> and a query embedding:
  the domain-hint path would give the active row \<open>tts:a\<close>, but the candidate list is that
  of the semantic mode, which is empty, and \<^verbatim>\<open>retrieve\<close> returns the empty list.
\<close>

theorem domain_path_skipped_with_query_embedding:
  "map embedding (memories tts_store) = [None, None]
   \<and> domain_candidates tts_store [''tts'']
       = [mk_row ''tts:a'' ''tts'' ''Use the edge-tts voice for narration'' 1 None ''active'']
   \<and> candidates tts_store (default_options\<lparr>queryEmbedding := Some [1, 0], domains := [''tts'']\<rparr>) = []
   \<and> retrieve 0 tts_store (default_options\<lparr>queryEmbedding := Some [1, 0], domains := [''tts'']\<rparr>) = Inr []"
  by (simp add: tts_store_def mk_row_def retrieve_def candidates_def domain_candidates_def
      domainQuery_def order_by_activation_desc_def is_active_def default_options_def)

text \<open>
  Claim C8, amended. In a store in which no memory has a stored embedding, for a retrieval
  with hints: when no query embedding was obtained, the candidates are those of the
  domain-hint path (the active memories whose domain is one of the hints, the group of each
  hint ordered by descending activation) and the scoring loop keeps every candidate, the
  floor excluding nothing; when a query embedding was obtained, the semantic mode is taken,
  its candidate list is empty and \<^verbatim>\<open>retrieve\<close> returns the empty list.
\<close>

theorem domain_path_needs_no_query_embedding:
  assumes "\<forall>m \<in> set (memories db). embedding m = None" and "domains opts \<noteq> []"
  shows "(queryEmbedding opts = None \<longrightarrow>
            candidates db opts = domain_candidates db (domains opts)
            \<and> (\<exists>scored. score_loop opts now (maxActivation_of (candidates db opts))
                          (candidates db opts) = Inr scored
                 \<and> map entry scored = candidates db opts))
     \<and> (queryEmbedding opts \<noteq> None \<longrightarrow> candidates db opts = [] \<and> retrieve now db opts = Inr [])
     \<and> set (domain_candidates db (domains opts)) =
         {m \<in> set (memories db). is_active m \<and> (\<exists>d \<in> set (domains opts). domain m = Some d)}
     \<and> (\<forall>d \<in> set (domains opts). sorted (map (\<lambda>m. - activation m) (domainQuery db d)))"
proof -
  have 1: "queryEmbedding opts = None \<longrightarrow> candidates db opts = domain_candidates db (domains opts)"
    using assms(2) by (simp add: candidates_def)
  have 2: "queryEmbedding opts = None \<longrightarrow>
      (\<exists>scored. score_loop opts now (maxActivation_of (candidates db opts)) (candidates db opts) = Inr scored
         \<and> map entry scored = candidates db opts)"
    using score_loop_no_query by blast
  have 3: "queryEmbedding opts \<noteq> None \<longrightarrow> candidates db opts = [] \<and> retrieve now db opts = Inr []"
    using retrieve_no_stored_embedding[OF assms(1)] by blast
  from 1 2 3 set_domain_candidates[of db "domains opts"] sorted_domainQuery[of db]
  show ?thesis by blast
qed

theorem domain_path_needs_no_query_embedding_witness:
  "map embedding (memories tts_store) = [None, None]
   \<and> domains (default_options\<lparr>domains := [''tts'']\<rparr>) = [''tts'']
   \<and> queryEmbedding (default_options\<lparr>domains := [''tts'']\<rparr>) = None
   \<and> candidates tts_store (default_options\<lparr>domains := [''tts'']\<rparr>)
       = domain_candidates tts_store [''tts'']
   \<and> domain_candidates tts_store [''tts'']
       = [mk_row ''tts:a'' ''tts'' ''Use the edge-tts voice for narration'' 1 None ''active'']"
proof -
  have e: "\<forall>m \<in> set (memories tts_store). embedding m = None"
    by (simp add: tts_store_def mk_row_def)
  have d: "domains (default_options\<lparr>domains := [''tts'']\<rparr>) \<noteq> []" by simp
  have q: "queryEmbedding (default_options\<lparr>domains := [''tts'']\<rparr>) = None"
    by (simp add: default_options_def)
  from domain_path_needs_no_query_embedding[OF e d, of 0] q
  have "candidates tts_store (default_options\<lparr>domains := [''tts'']\<rparr>)
       = domain_candidates tts_store [''tts'']" by simp
  moreover have "domain_candidates tts_store [''tts'']
       = [mk_row ''tts:a'' ''tts'' ''Use the edge-tts voice for narration'' 1 None ''active'']"
    by (simp add: tts_store_def mk_row_def domain_candidates_def domainQuery_def
        order_by_activation_desc_def is_active_def)
  moreover have "map embedding (memories tts_store) = [None, None]"
    by (simp add: tts_store_def mk_row_def)
  ultimately show ?thesis using q by simp
qed

section \<open>Decoding stored embeddings\<close>

lemma ToIndex_quarter: "ToIndex (real n / 4) = Inr (n div 4)"
proof -
  have "\<lfloor>real n / real 4\<rfloor> = int (n div 4)" by (rule floor_divide_of_nat_eq)
  then have "nat \<lfloor>real n / 4\<rfloor> = n div 4" by simp
  moreover have "\<not> real n / 4 \<le> - 1" by (simp add: field_simps)
  ultimately show ?thesis by (simp add: ToIndex_def)
qed

lemma blobToEmbedding_aligned:
  "byteOffset buf mod 4 = 0 \<Longrightarrow>
   blobToEmbedding (Some buf) = Inr (Some (float32_elements (bytes buf) (byteLength buf div 4)))"
  by (simp add: blobToEmbedding_def new_Float32Array_def ToIndex_quarter)

lemma blobToEmbedding_unaligned:
  "byteOffset buf mod 4 \<noteq> 0 \<Longrightarrow> blobToEmbedding (Some buf) = Inl RangeError"
  by (simp add: blobToEmbedding_def new_Float32Array_def)

lemma length_float32_elements: "length (float32_elements bs n) = n"
  by (simp add: float32_elements_def)

lemma blobToEmbedding_row_ok:
  assumes "\<forall>buf. embedding m = Some buf \<longrightarrow> byteOffset buf mod 4 = 0"
  shows "\<exists>emb. blobToEmbedding (embedding m) = Inr emb"
proof (cases "embedding m")
  case None
  then show ?thesis by (simp add: blobToEmbedding_def)
next
  case (Some buf)
  with assms have "byteOffset buf mod 4 = 0" by simp
  from blobToEmbedding_aligned[OF this] Some show ?thesis by simp
qed

lemma semanticSearch_map_ok:
  "\<forall>m \<in> set rows. \<forall>buf. embedding m = Some buf \<longrightarrow> byteOffset buf mod 4 = 0 \<Longrightarrow>
   \<exists>scored. semanticSearch_map q rows = Inr scored"
proof (induction rows)
  case Nil
  show ?case by simp
next
  case (Cons row rows)
  from Cons.prems blobToEmbedding_row_ok[of row] obtain emb where
    "blobToEmbedding (embedding row) = Inr emb" by auto
  moreover from Cons obtain scored where "semanticSearch_map q rows = Inr scored" by auto
  ultimately show ?case by simp
qed

lemma score_entry_ok:
  assumes "\<forall>buf. embedding e = Some buf \<longrightarrow> byteOffset buf mod 4 = 0"
  shows "\<exists>r. score_entry opts now mx e = Inr r"
proof -
  from blobToEmbedding_row_ok[OF assms] obtain emb where
    "blobToEmbedding (embedding e) = Inr emb" by blast
  then show ?thesis by (simp add: score_entry_def)
qed

lemma score_loop_ok:
  "\<forall>m \<in> set es. \<forall>buf. embedding m = Some buf \<longrightarrow> byteOffset buf mod 4 = 0 \<Longrightarrow>
   \<exists>scored. score_loop opts now mx es = Inr scored"
proof (induction es)
  case Nil
  show ?case by simp
next
  case (Cons e es)
  from Cons.prems score_entry_ok[of e opts now mx] obtain r where
    "score_entry opts now mx e = Inr r" by auto
  moreover from Cons obtain scored where "score_loop opts now mx es = Inr scored" by auto
  ultimately show ?case by simp
qed

lemma candidates_subset: "set (candidates db opts) \<subseteq> set (memories db)"
  by (auto simp: candidates_def domain_candidates_def domainQuery_def order_by_activation_desc_def
      dest: in_set_takeD split: if_splits)

lemma retrieve_ok:
  assumes "blobs_aligned db"
  shows "\<exists>res. retrieve now db opts = Inr res"
proof -
  have "\<forall>m \<in> set (candidates db opts). \<forall>buf. embedding m = Some buf \<longrightarrow> byteOffset buf mod 4 = 0"
    using assms candidates_subset[of db opts] by (auto simp: blobs_aligned_def)
  from score_loop_ok[OF this] obtain scored where
    "score_loop opts now (maxActivation_of (candidates db opts)) (candidates db opts) = Inr scored"
    by blast
  then show ?thesis
    by (simp add: retrieve_def Let_def split: prod.splits)
qed

lemma semanticSearch_ok:
  assumes "blobs_aligned db"
  shows "\<exists>found. semanticSearch db q k = Inr found"
proof -
  have "\<forall>m \<in> set (filter (\<lambda>m. embedding m \<noteq> None) (memories db)).
          \<forall>buf. embedding m = Some buf \<longrightarrow> byteOffset buf mod 4 = 0"
    using assms by (auto simp: blobs_aligned_def)
  from semanticSearch_map_ok[OF this] obtain scored where
    "semanticSearch_map q (filter (\<lambda>m. embedding m \<noteq> None) (memories db)) = Inr scored" by blast
  then show ?thesis by (simp add: semanticSearch_def)
qed

lemma cosine_length_mismatch: "length a \<noteq> length b \<Longrightarrow> cosineSimilarity (Some a) (Some b) = 0"
  by (simp add: cosineSimilarity_def)

lemma ranked_item_dimension:
  assumes "retrieve now db opts = Inr res" and "queryEmbedding opts = Some q"
    and "r \<in> set res" and "\<not> spreadingActivation r" and "embedding (entry r) = Some buf"
  shows "byteLength buf div 4 = length q"
proof -
  from retrieve_ranked_item[OF assms(1,3,4)]
  have "score_entry opts now (maxActivation_of (candidates db opts)) (entry r) = Inr (Some r)" by simp
  from score_entry_Some[OF this] assms(2) obtain emb where
    emb: "blobToEmbedding (embedding (entry r)) = Inr (Some emb)"
    and sim: "0.3 \<le> cosineSimilarity (Some q) (Some emb)" by auto
  have "byteOffset buf mod 4 = 0"
    using emb assms(5) blobToEmbedding_unaligned[of buf] by (cases "byteOffset buf mod 4 = 0") auto
  from blobToEmbedding_aligned[OF this] emb assms(5)
  have "length emb = byteLength buf div 4" by (auto simp: length_float32_elements)
  moreover have "length q = length emb"
    using sim cosine_length_mismatch[of q emb] by (cases "length q = length emb") auto
  ultimately show ?thesis by simp
qed
lemma blob_vec_5: "blobToEmbedding (Some vec_5) = Inr (Some [1])"
  by (simp add: vec_5_def blob_defs)

text \<open>
  Claim C10, as stated: a blob whose byte length is not a multiple of 4 makes
  \<^verbatim>\<open>blobToEmbedding\<close> throw, and with it \<^verbatim>\<open>semanticSearch\<close> and \<^verbatim>\<open>retrieve\<close> over a
  store that holds it. The length the code passes to the constructor, \<^verbatim>\<open>byteLength / 4\<close>,
  goes through \<^verbatim>\<open>ToIndex\<close>, which truncates \<open>1.25\<close> to \<open>1\<close>: for the blob of five bytes
  \<open>vec_5\<close> the function returns the array of the one element \<open>1.0\<close>. \<^verbatim>\<open>semanticSearch\<close>
  over the store \<open>odd_store\<close> returns, the row listed with similarity 0 (the lengths of
  the vectors differ), and \<^verbatim>\<open>retrieve\<close> returns, the row dropped by the floor.
\<close>

theorem malformed_blob_does_not_throw:
  "byteOffset vec_5 = 0 \<and> byteLength vec_5 = 5
   \<and> blobToEmbedding (Some vec_5) = Inr (Some [1])
   \<and> semanticSearch odd_store (Some [1, 0]) 20 = Inr [(''tts:a'', 1), (''tts:c'', 0)]
   \<and> retrieve 0 odd_store (default_options\<lparr>queryEmbedding := Some [1, 0]\<rparr>) =
       Inr [\<lparr>entry = mk_row ''tts:a'' ''tts'' ''Use the edge-tts voice for narration'' 1 (Some vec_10) ''active'',
              score = 0.98, semanticSim = Some 1, spreadBoost = None, spreadingActivation = False\<rparr>]"
  using blob_vec_5
  by (simp add: odd_store_def mk_row_def retrieve_defs semanticSearch_def blob_vec_10 byteLength_def)
     (simp add: vec_5_def)

text \<open>
  Claim C10, amended. \<^verbatim>\<open>blobToEmbedding\<close> returns null for a null blob; for a blob that
  starts at a multiple of 4 bytes in its \<^verbatim>\<open>ArrayBuffer\<close> it returns, whatever the byte
  length, the array of the first \<open>byteLength div 4\<close> floats, the 1 to 3 bytes left over
  ignored; it throws a \<^verbatim>\<open>RangeError\<close> exactly for a blob that starts elsewhere. Over a
  store whose blobs all start at multiples of 4, \<^verbatim>\<open>semanticSearch\<close> and \<^verbatim>\<open>retrieve\<close>
  return a value, and no row whose blob decodes to a vector of another length than the
  query's is among the ranked items of \<^verbatim>\<open>retrieve\<close>.
\<close>

theorem blobToEmbedding_truncates:
  "blobToEmbedding None = Inr None
   \<and> (byteOffset buf mod 4 = 0 \<longrightarrow>
        (\<exists>arr. blobToEmbedding (Some buf) = Inr (Some arr) \<and> length arr = byteLength buf div 4))
   \<and> (byteOffset buf mod 4 \<noteq> 0 \<longrightarrow> blobToEmbedding (Some buf) = Inl RangeError)
   \<and> (blobs_aligned db \<longrightarrow>
        (\<exists>found. semanticSearch db q k = Inr found) \<and> (\<exists>res. retrieve now db opts = Inr res))
   \<and> (retrieve now db opts = Inr res \<and> queryEmbedding opts = Some qv \<and> r \<in> set res
        \<and> \<not> spreadingActivation r \<and> embedding (entry r) = Some b
        \<longrightarrow> byteLength b div 4 = length qv)"
proof -
  have 1: "blobToEmbedding None = Inr None" by (simp add: blobToEmbedding_def)
  have 2: "byteOffset buf mod 4 = 0 \<longrightarrow>
        (\<exists>arr. blobToEmbedding (Some buf) = Inr (Some arr) \<and> length arr = byteLength buf div 4)"
    using blobToEmbedding_aligned[of buf] by (simp add: length_float32_elements)
  have 3: "byteOffset buf mod 4 \<noteq> 0 \<longrightarrow> blobToEmbedding (Some buf) = Inl RangeError"
    using blobToEmbedding_unaligned[of buf] by simp
  have 4: "blobs_aligned db \<longrightarrow>
        (\<exists>found. semanticSearch db q k = Inr found) \<and> (\<exists>res. retrieve now db opts = Inr res)"
    using semanticSearch_ok[of db q k] retrieve_ok[of db now opts] by simp
  have 5: "retrieve now db opts = Inr res \<and> queryEmbedding opts = Some qv \<and> r \<in> set res
        \<and> \<not> spreadingActivation r \<and> embedding (entry r) = Some b
        \<longrightarrow> byteLength b div 4 = length qv"
    using ranked_item_dimension[of now db opts res qv r b] by blast
  from 1 2 3 4 5 show ?thesis by blast
qed

theorem blobToEmbedding_truncates_witness:
  "byteOffset vec_5 mod 4 = 0 \<and> byteLength vec_5 div 4 = 1
   \<and> (\<exists>arr. blobToEmbedding (Some vec_5) = Inr (Some arr) \<and> length arr = byteLength vec_5 div 4)
   \<and> blobs_aligned odd_store
   \<and> (\<exists>found. semanticSearch odd_store (Some [1, 0]) 20 = Inr found)
   \<and> (\<exists>res. retrieve 0 odd_store (default_options\<lparr>queryEmbedding := Some [1, 0]\<rparr>) = Inr res)"
proof -
  have a: "byteOffset vec_5 mod 4 = 0" and l: "byteLength vec_5 div 4 = 1"
    by (simp_all add: vec_5_def byteLength_def)
  have b: "blobs_aligned odd_store"
    by (simp add: blobs_aligned_def odd_store_def mk_row_def vec_5_def vec_10_def)
  from blobToEmbedding_truncates[of vec_5 odd_store "Some [1, 0]" 20 0
      "default_options\<lparr>queryEmbedding := Some [1, 0]\<rparr>"] a b l
  show ?thesis by simp
qed

section \<open>ID-level deduplication\<close>

lemma id_exists_iff: "id_exists db i \<longleftrightarrow> i \<in> stored_ids db"
  by (auto simp: id_exists_def stored_ids_def filter_empty_conv)

lemma session_dedup_closed:
  "session_dedup db now as (newEntries, skippedById) =
     (newEntries @ map (session_entry now) (filter (\<lambda>a. session_id a \<notin> stored_ids db) as),
      skippedById + length (filter (\<lambda>a. session_id a \<in> stored_ids db) as))"
  by (induction as arbitrary: newEntries skippedById) (simp_all add: id_exists_iff)

lemma stored_ids_upsertMemory:
  "stored_ids (upsertMemory db e) = insert (mem_id e) (stored_ids db)"
  by (auto simp: upsertMemory_def stored_ids_def Let_def)

lemma atomize_extract_inv:
  "atomize_extract now as (db, added, skipped) = (db', added', skipped') \<Longrightarrow>
   stored_ids db' = stored_ids db \<union> atomic_ids as
   \<and> added' = added + card (atomic_ids as - stored_ids db)
   \<and> added' + skipped' = added + skipped + length as"
proof (induction as arbitrary: db added skipped)
  case Nil
  then show ?case by (simp add: atomic_ids_def)
next
  case (Cons a as)
  let ?i = "atomicId (a_domain a) (a_summary a)"
  have ids: "atomic_ids (a # as) = insert ?i (atomic_ids as)" by (simp add: atomic_ids_def)
  have fin: "finite (atomic_ids as)" by (simp add: atomic_ids_def)
  show ?case
  proof (cases "?i \<in> stored_ids db")
    case True
    with Cons.prems have "atomize_extract now as (db, added, skipped + 1) = (db', added', skipped')"
      by (simp add: id_exists_iff)
    from Cons.IH[OF this] True show ?thesis
      unfolding ids by (auto simp: insert_Diff_if)
  next
    case False
    let ?db2 = "upsertMemory db (atomize_entry now a)"
    have s2: "stored_ids ?db2 = insert ?i (stored_ids db)"
      by (simp add: stored_ids_upsertMemory atomize_entry_def)
    from False Cons.prems have "atomize_extract now as (?db2, added + 1, skipped) = (db', added', skipped')"
      by (simp add: id_exists_iff)
    from Cons.IH[OF this] have
      a: "stored_ids db' = stored_ids ?db2 \<union> atomic_ids as"
      and b: "added' = added + 1 + card (atomic_ids as - stored_ids ?db2)"
      and c: "added' + skipped' = added + 1 + skipped + length as" by simp_all
    have "atomic_ids (a # as) - stored_ids db = insert ?i (atomic_ids as - insert ?i (stored_ids db))"
      unfolding ids using False by auto
    moreover have "?i \<notin> atomic_ids as - insert ?i (stored_ids db)" by simp
    ultimately have "card (atomic_ids (a # as) - stored_ids db)
        = Suc (card (atomic_ids as - insert ?i (stored_ids db)))"
      using fin by simp
    with a b c show ?thesis unfolding s2 ids by auto
  qed
qed

lemma cand_session_id: "session_id cand_session = ''tts:session:7b24bd24''"
  by (simp add: cand_session_def session_id_def inferDomain_def domain_keywords_def toLowerCase_def
      lower_char_def upper_chars_def lower_chars_def hashContent_def hash32_def)

lemma cand_atomic_id:
  "atomicId (a_domain cand_atomic) (a_summary cand_atomic)
     = ''tts:voice-clone-needs-a-24khz-reference-sample''"
  by (simp add: cand_atomic_def atomicId_def is_space_def toLowerCase_def lower_char_def upper_chars_def lower_chars_def)

text \<open>
  Claim C9, as stated: a candidate is skipped exactly when an \<^emph>\<open>active\<close> row with its id
  exists, and is not skipped when the only row with its id is not active. In \<open>dep_store\<close>
  both rows are deprecated and carry the ids the session extractor and the atomizer compute
  for the candidates \<open>cand_session\<close> and \<open>cand_atomic\<close>; each loop skips its candidate.
\<close>

theorem id_dedup_skips_deprecated:
  "map status (memories dep_store) = [Some ''deprecated'', Some ''deprecated'']
   \<and> session_id cand_session = ''tts:session:7b24bd24''
   \<and> session_dedup dep_store 0 [cand_session] ([], 0) = ([], 1)
   \<and> atomicId (a_domain cand_atomic) (a_summary cand_atomic)
       = ''tts:voice-clone-needs-a-24khz-reference-sample''
   \<and> atomize_extract 0 [cand_atomic] (dep_store, 0, 0) = (dep_store, 0, 1)"
  by (simp add: cand_session_id cand_atomic_id id_exists_def) (simp add: dep_store_def mk_row_def)

text \<open>
  Claim C9, amended. A candidate is skipped by the ID-level deduplication exactly when a row
  with its computed id exists in the store, whatever the status of that row. The session
  extractor keeps the candidates whose id has no row and counts the others; the atomizer,
  which upserts each new entry at once, adds one entry for each id that had no row (a later
  candidate with the same id meets the row just written) and skips the rest.
\<close>

theorem id_dedup_ignores_status:
  assumes "atomize_extract now as (db, 0, 0) = (db', added, skipped)"
  shows "session_dedup db now bs ([], 0) =
           (map (session_entry now) (filter (\<lambda>b. session_id b \<notin> stored_ids db) bs),
            length (filter (\<lambda>b. session_id b \<in> stored_ids db) bs))
     \<and> stored_ids db' = stored_ids db \<union> atomic_ids as
     \<and> added = card (atomic_ids as - stored_ids db)
     \<and> added + skipped = length as"
proof -
  have session: "session_dedup db now bs ([], 0) =
           (map (session_entry now) (filter (\<lambda>b. session_id b \<notin> stored_ids db) bs),
            length (filter (\<lambda>b. session_id b \<in> stored_ids db) bs))"
    by (simp add: session_dedup_closed)
  from atomize_extract_inv[OF assms]
  have ids: "stored_ids db' = stored_ids db \<union> atomic_ids as"
    and added: "added = card (atomic_ids as - stored_ids db)"
    and all: "added + skipped = length as"
    by simp_all
  from session ids added all show ?thesis by blast
qed

theorem id_dedup_ignores_status_witness:
  "atomize_extract 0 [cand_atomic] (tts_store, 0, 0)
     = (upsertMemory tts_store (atomize_entry 0 cand_atomic), 1, 0)
   \<and> session_dedup tts_store 0 [cand_session] ([], 0) = ([session_entry 0 cand_session], 0)
   \<and> card (atomic_ids [cand_atomic] - stored_ids tts_store) = 1"
proof -
  have n: "\<not> id_exists tts_store ''tts:voice-clone-needs-a-24khz-reference-sample''"
    and s: "''tts:session:7b24bd24'' \<notin> stored_ids tts_store"
    by (simp_all add: id_exists_def stored_ids_def tts_store_def mk_row_def)
  have a: "atomize_extract 0 [cand_atomic] (tts_store, 0, 0)
     = (upsertMemory tts_store (atomize_entry 0 cand_atomic), 1, 0)"
    using n by (simp add: cand_atomic_id)
  from id_dedup_ignores_status[OF a, of "[cand_session]"] a s show ?thesis
    by (simp add: cand_session_id)
qed

end
